theory Spec2Isabelle
  imports Main "HOL-Library.Sublist" "HOL-Library.List_Lexorder"
begin

section \<open>Python strings\<close>

text \<open>
  A Python \<open>str\<close> is a sequence of Unicode code points; both scripts read their files in
  text mode and index, slice and compare code points. A string is therefore a list of
  natural numbers, one per code point. \<open>ascii\<close> writes an ASCII literal.
\<close>

type_synonym str = "nat list"

definition ascii :: "string \<Rightarrow> str" where
  "ascii s = map of_char s"

datatype exn = FileNotFoundError | PermissionError | TypeError | ValueError | IndexError | KeyError

text \<open>\<open>xs[i]\<close> for a non-negative index: IndexError out of range.\<close>

definition item :: "'a list \<Rightarrow> nat \<Rightarrow> exn + 'a" where
  "item xs i = (if i < length xs then Inr (xs ! i) else Inl IndexError)"

text \<open>
  \<open>s.split(sep)\<close> and \<open>s.split(sep, maxsplit)\<close> for a one-character separator:
  \<open>None\<close> is the default (no limit on the number of splits).
\<close>

function (sequential) py_split :: "nat \<Rightarrow> nat option \<Rightarrow> str \<Rightarrow> str list" where
  "py_split sep (Some 0) s = [s]"
| "py_split sep m s =
     (case dropWhile (\<lambda>c. c \<noteq> sep) s of
        [] \<Rightarrow> [s]
      | _ # r \<Rightarrow> takeWhile (\<lambda>c. c \<noteq> sep) s # py_split sep (map_option (\<lambda>n. n - 1) m) r)"
  by pat_completeness auto
termination
proof (relation "measure (\<lambda>(sep, m, s). length s)", goal_cases)
  case 1
  show ?case by simp
next
  case (2 sep s x r)
  have "length (dropWhile (\<lambda>c. c \<noteq> sep) s) \<le> length s"
    by (rule length_dropWhile_le)
  with 2 show ?case by simp
next
  case (3 sep n s x r)
  have "length (dropWhile (\<lambda>c. c \<noteq> sep) s) \<le> length s"
    by (rule length_dropWhile_le)
  with 3 show ?case by simp
qed

declare py_split.simps [simp del]

text \<open>Line feed, and the bullet character U+2022.\<close>

definition nl :: nat where
  "nl = 10"

definition bullet :: nat where
  "bullet = 8226"

text \<open>
  Whitespace as \<open>str.strip()\<close> and the pattern \<open>\s\<close> see it (\<open>str.isspace\<close>): the ASCII
  controls 9 to 13 and 28 to 31, the space, and the Unicode separators.
\<close>

definition is_space :: "nat \<Rightarrow> bool" where
  "is_space c =
     (9 \<le> c \<and> c \<le> 13 \<or> 28 \<le> c \<and> c \<le> 32 \<or> c = 133 \<or> c = 160 \<or> c = 5760
      \<or> 8192 \<le> c \<and> c \<le> 8202 \<or> c = 8232 \<or> c = 8233 \<or> c = 8239 \<or> c = 8287
      \<or> c = 12288)"

text \<open>\<open>s.strip()\<close>.\<close>

definition strip :: "str \<Rightarrow> str" where
  "strip s = rev (dropWhile is_space (rev (dropWhile is_space s)))"

text \<open>\<open>sub in s\<close>.\<close>

primrec contains :: "str \<Rightarrow> str \<Rightarrow> bool" where
  "contains [] sub = (sub = [])"
| "contains (c # s) sub = (prefix sub (c # s) \<or> contains s sub)"

text \<open>\<open>s.replace(old, new)\<close>: left to right, without overlaps.\<close>

function py_replace :: "str \<Rightarrow> str \<Rightarrow> str \<Rightarrow> str" where
  "py_replace old new s =
     (if old = [] then new @ concat (map (\<lambda>c. c # new) s)
      else if s = [] then []
      else if prefix old s then new @ py_replace old new (drop (length old) s)
      else hd s # py_replace old new (tl s))"
  by pat_completeness auto
termination
  by (relation "measure (\<lambda>(old, new, s). length s)") auto

declare py_replace.simps [simp del]

text \<open>\<open>sep.join(xs)\<close>.\<close>

fun py_join :: "str \<Rightarrow> str list \<Rightarrow> str" where
  "py_join sep [] = []"
| "py_join sep [x] = x"
| "py_join sep (x # y # ys) = x @ sep @ py_join sep (y # ys)"

text \<open>
  A call \<open>f(*args)\<close> of a function declared with two positional parameters and no
  defaults: any other number of arguments raises TypeError before the body runs.
\<close>

definition call2 :: "('a \<Rightarrow> 'a \<Rightarrow> 'r) \<Rightarrow> 'a list \<Rightarrow> exn + 'r" where
  "call2 f args = (case args of [a, b] \<Rightarrow> Inr (f a b) | _ \<Rightarrow> Inl TypeError)"

section \<open>Files\<close>

text \<open>
  The scripts share no state but the file system. It is a map from paths to the text of
  the files, with, for every path, whether \<open>open(path, 'r')\<close> and reading succeed,
  whether \<open>open(path, 'w')\<close> and writing succeed, and whether \<open>os.makedirs(path,
  exist_ok=True)\<close> succeeds. A call that fails raises, and changes nothing.
\<close>

record 'p fsys =
  files :: "'p \<rightharpoonup> str"
  readable :: "'p \<Rightarrow> bool"
  writable :: "'p \<Rightarrow> bool"
  dir_ok :: "'p \<Rightarrow> bool"

definition path_exists :: "'p fsys \<Rightarrow> 'p \<Rightarrow> bool" where
  "path_exists w p = (files w p \<noteq> None)"

definition read_file :: "'p fsys \<Rightarrow> 'p \<Rightarrow> exn + str" where
  "read_file w p =
     (case files w p of
        None \<Rightarrow> Inl FileNotFoundError
      | Some content \<Rightarrow> if readable w p then Inr content else Inl PermissionError)"

definition write_file :: "'p fsys \<Rightarrow> 'p \<Rightarrow> str \<Rightarrow> exn + 'p fsys" where
  "write_file w p content =
     (if writable w p then Inr (w\<lparr>files := (files w)(p \<mapsto> content)\<rparr>)
      else Inl PermissionError)"

definition makedirs :: "'p fsys \<Rightarrow> 'p \<Rightarrow> exn option" where
  "makedirs w d = (if dir_ok w d then None else Some PermissionError)"

text \<open>
  A script that returns from \<open>main\<close> ends with exit status 0; an exception that nothing
  catches ends it with a traceback and exit status 1.
\<close>

definition exit_status :: "exn option \<Rightarrow> nat" where
  "exit_status raised = (case raised of None \<Rightarrow> 0 | Some e \<Rightarrow> 1)"

section \<open>Regular expressions\<close>

text \<open>
  The scripts find their fields with patterns of the \<open>re\<close> module, a backtracking
  matcher. A pattern is modelled by what the matcher does: given the groups captured so
  far and the input that is left, it returns every way of matching at the front of that
  input, as the groups and the input left afterwards, in the order in which the
  backtracking matcher tries them. The head of the list is the match that \<open>re\<close> reports.
\<close>

type_synonym mstate = "str list \<times> str"

type_synonym matcher = "mstate \<Rightarrow> mstate list"

text \<open>A literal string.\<close>

fun lit :: "str \<Rightarrow> matcher" where
  "lit l (g, s) = (if prefix l s then [(g, drop (length l) s)] else [])"

text \<open>One character of a class, such as \<open>['\"]\<close>.\<close>

fun one :: "(nat \<Rightarrow> bool) \<Rightarrow> matcher" where
  "one p (g, []) = []"
| "one p (g, c # r) = (if p c then [(g, r)] else [])"

text \<open>
  The inputs left after consuming zero, one, two, ... characters of a class, for as long
  as the characters belong to it.
\<close>

primrec suffixes_while :: "(nat \<Rightarrow> bool) \<Rightarrow> str \<Rightarrow> str list" where
  "suffixes_while p [] = [[]]"
| "suffixes_while p (c # r) = (c # r) # (if p c then suffixes_while p r else [])"

text \<open>
  A repeated class with at least \<open>lo\<close> repetitions: \<open>greedy\<close> (\<open>*\<close>, \<open>+\<close>) tries the longest
  run first, \<open>lazy\<close> (\<open>*?\<close>, \<open>+?\<close>) the shortest.
\<close>

fun greedy :: "nat \<Rightarrow> (nat \<Rightarrow> bool) \<Rightarrow> matcher" where
  "greedy lo p (g, s) = map (Pair g) (rev (drop lo (suffixes_while p s)))"

fun lazy :: "nat \<Rightarrow> (nat \<Rightarrow> bool) \<Rightarrow> matcher" where
  "lazy lo p (g, s) = map (Pair g) (drop lo (suffixes_while p s))"

text \<open>Concatenation, the optional \<open>(?:m)?\<close>, alternation, and a sequence of patterns.\<close>

definition seq :: "matcher \<Rightarrow> matcher \<Rightarrow> matcher" where
  "seq m1 m2 st = concat (map m2 (m1 st))"

definition opt :: "matcher \<Rightarrow> matcher" where
  "opt m st = m st @ [st]"

definition alt :: "matcher \<Rightarrow> matcher \<Rightarrow> matcher" where
  "alt m1 m2 st = m1 st @ m2 st"

fun seqs :: "matcher list \<Rightarrow> matcher" where
  "seqs [] st = [st]"
| "seqs (m # ms) st = concat (map (seqs ms) (m st))"

text \<open>A capturing group: the text its pattern consumed is appended to the groups.\<close>

fun group :: "matcher \<Rightarrow> matcher" where
  "group m (g, s) = map (\<lambda>(g', r). (g' @ [take (length s - length r) s], r)) (m (g, s))"

text \<open>
  \<open>$\<close> without \<open>re.MULTILINE\<close> (the end of the input, or just before a line feed that
  ends it) and with it (the end of the input, or before any line feed).
\<close>

fun eos :: matcher where
  "eos (g, s) = (if s = [] \<or> s = [nl] then [(g, s)] else [])"

fun eol :: matcher where
  "eol (g, []) = [(g, [])]"
| "eol (g, c # r) = (if c = nl then [(g, c # r)] else [])"

text \<open>The character classes: \<open>.\<close> with and without \<open>re.DOTALL\<close>.\<close>

definition any_char :: "nat \<Rightarrow> bool" where
  "any_char c = True"

definition not_nl :: "nat \<Rightarrow> bool" where
  "not_nl c = (c \<noteq> nl)"

text \<open>
  \<open>re.search\<close>: the leftmost position at which the pattern matches, with the first match
  there; \<open>None\<close> when no position matches. \<open>bol\<close> is set for a pattern that begins with
  \<open>^\<close> under \<open>re.MULTILINE\<close>: it is tried only at the start of the input and after a line
  feed; \<open>prev\<close> is the character before the position.
\<close>

fun search_at :: "bool \<Rightarrow> matcher \<Rightarrow> nat option \<Rightarrow> nat \<Rightarrow> str \<Rightarrow> (nat \<times> mstate) option" where
  "search_at bol m prev i [] =
     (if bol \<and> prev \<noteq> None \<and> prev \<noteq> Some nl then None
      else case m ([], []) of [] \<Rightarrow> None | r # _ \<Rightarrow> Some (i, r))"
| "search_at bol m prev i (c # cs) =
     (if bol \<and> prev \<noteq> None \<and> prev \<noteq> Some nl then search_at bol m (Some c) (Suc i) cs
      else case m ([], c # cs) of
             [] \<Rightarrow> search_at bol m (Some c) (Suc i) cs
           | r # _ \<Rightarrow> Some (i, r))"

definition re_search :: "bool \<Rightarrow> matcher \<Rightarrow> str \<Rightarrow> (nat \<times> mstate) option" where
  "re_search bol m s = search_at bol m None 0 s"

text \<open>
  \<open>re.finditer\<close> for a pattern without anchors: the matches from left to right, each
  search starting where the previous match ended. The scan goes on only while the input
  gets shorter; the one pattern it is used with never matches the empty string
  (\<open>register_pattern_consumes\<close> below), so the scan is never cut short.
\<close>

function finditer :: "matcher \<Rightarrow> str \<Rightarrow> mstate list" where
  "finditer m s =
     (case re_search False m s of
        None \<Rightarrow> []
      | Some (i, (g, r)) \<Rightarrow> (g, r) # (if length r < length s then finditer m r else []))"
  by pat_completeness auto
termination
  by (relation "measure (\<lambda>(m, s). length s)") auto

declare finditer.simps [simp del]

section \<open>The extractor: scripts/extract-tool-docs.py\<close>

subsection \<open>parse_index_ts\<close>

definition is_quote :: "nat \<Rightarrow> bool" where
  "is_quote c = (c = 39 \<or> c = 34)"

definition is_tick :: "nat \<Rightarrow> bool" where
  "is_tick c = (c = 96 \<or> c = 34)"

text \<open>
  The pattern, piece by piece:
  \<^verbatim>\<open>this\.server\.registerTool\(\s*['\"]([^'\"]+)['\"],\s*\{\s*description:\s*[`\"]([^`\"]*(?:[^`\"]*)?)[`\"]\<close>
  (39 is the single quote, 34 the double quote, 96 the backtick).
\<close>

definition register_pattern :: matcher where
  "register_pattern =
     seqs [lit (ascii ''this.server.registerTool(''),
           greedy 0 is_space,
           one is_quote,
           group (greedy 1 (\<lambda>c. \<not> is_quote c)),
           one is_quote,
           lit (ascii '',''),
           greedy 0 is_space,
           lit (ascii ''{''),
           greedy 0 is_space,
           lit (ascii ''description:''),
           greedy 0 is_space,
           one is_tick,
           group (seq (greedy 0 (\<lambda>c. \<not> is_tick c)) (opt (greedy 0 (\<lambda>c. \<not> is_tick c)))),
           one is_tick]"

text \<open>
  The body of \<open>for match in re.finditer(...)\<close>: \<open>match.group(1)\<close>, and \<open>match.group(2)\<close>
  stripped and with the two characters backslash, n replaced by a line feed.
\<close>

definition tool_of_match :: "mstate \<Rightarrow> exn + (str \<times> str)" where
  "tool_of_match st =
     (case item (fst st) 0 of
        Inl e \<Rightarrow> Inl e
      | Inr tool_name \<Rightarrow>
          (case item (fst st) 1 of
             Inl e \<Rightarrow> Inl e
           | Inr d \<Rightarrow> Inr (tool_name, py_replace [92, 110] [nl] (strip d))))"

fun collect_tools :: "mstate list \<Rightarrow> exn + (str \<times> str) list" where
  "collect_tools [] = Inr []"
| "collect_tools (st # sts) =
     (case tool_of_match st of
        Inl e \<Rightarrow> Inl e
      | Inr t \<Rightarrow> (case collect_tools sts of Inl e \<Rightarrow> Inl e | Inr ts \<Rightarrow> Inr (t # ts)))"

text \<open>\<open>parse_index_ts\<close> after the file has been read.\<close>

definition parse_content :: "str \<Rightarrow> exn + (str \<times> str) list" where
  "parse_content content = collect_tools (finditer register_pattern content)"

subsection \<open>get_tool_category\<close>

definition dash :: nat where
  "dash = 45"

definition unknown :: str where
  "unknown = ascii ''unknown''"

text \<open>The dictionary \<open>categories\<close>, in insertion order.\<close>

definition categories :: "(str \<times> str list) list" where
  "categories =
     [(ascii ''xcodebuild'', [ascii ''xcodebuild'']),
      (ascii ''simctl'', [ascii ''simctl'']),
      (ascii ''idb'', [ascii ''idb'']),
      (ascii ''cache'', [ascii ''cache'']),
      (ascii ''persistence'', [ascii ''persistence''])]"

text \<open>
  The inner loop \<open>for prefix in prefixes\<close>: \<open>Inr (Some category)\<close> is the \<open>return\<close>,
  \<open>Inr None\<close> is falling out of the loop, \<open>Inl\<close> is an exception of \<open>parts[0]\<close>.
\<close>

fun category_prefixes :: "str list \<Rightarrow> str \<Rightarrow> str list \<Rightarrow> exn + str option" where
  "category_prefixes parts category [] = Inr None"
| "category_prefixes parts category (pfx # pfxs) =
     (case item parts 0 of
        Inl e \<Rightarrow> Inl e
      | Inr p0 \<Rightarrow> if p0 = pfx then Inr (Some category)
                 else category_prefixes parts category pfxs)"

text \<open>The outer loop \<open>for category, prefixes in categories.items()\<close>.\<close>

fun category_items :: "str list \<Rightarrow> (str \<times> str list) list \<Rightarrow> exn + str option" where
  "category_items parts [] = Inr None"
| "category_items parts ((category, pfxs) # items) =
     (case category_prefixes parts category pfxs of
        Inl e \<Rightarrow> Inl e
      | Inr (Some c) \<Rightarrow> Inr (Some c)
      | Inr None \<Rightarrow> category_items parts items)"

definition get_tool_category :: "str \<Rightarrow> exn + str" where
  "get_tool_category tool_name =
     (let parts = py_split dash None tool_name
      in case category_items parts categories of
           Inl e \<Rightarrow> Inl e
         | Inr (Some c) \<Rightarrow> Inr c
         | Inr None \<Rightarrow> Inr unknown)"

subsection \<open>get_tool_filename\<close>

definition get_tool_filename :: "str \<Rightarrow> exn + str" where
  "get_tool_filename tool_name =
     (let parts = py_split dash (Some 1) tool_name
      in if length parts = 2 then item parts 1 else Inr tool_name)"

subsection \<open>format_markdown\<close>

text \<open>The three variables of the scanning loop.\<close>

record scan =
  advantages :: "str list"
  summary_lines :: "str list"
  in_advantages :: bool

text \<open>One iteration of \<open>for line in lines\<close>.\<close>

definition scan_line :: "scan \<Rightarrow> str \<Rightarrow> scan" where
  "scan_line st line =
     (let stripped = strip line
      in if contains line (ascii ''Advantages'') \<or> contains line (ascii ''Benefits'')
            \<or> contains line (ascii ''Features'')
         then st\<lparr>in_advantages := True\<rparr>
         else if in_advantages st
         then (if prefix [bullet] stripped \<or> prefix (ascii ''-'') stripped
               then st\<lparr>advantages := advantages st @ [stripped]\<rparr>
               else if prefix (ascii ''###'') stripped \<or> prefix (ascii ''##'') stripped
               then st\<lparr>in_advantages := False, summary_lines := summary_lines st @ [line]\<rparr>
               else if stripped = []
               then st
               else st\<lparr>in_advantages := False, summary_lines := summary_lines st @ [line]\<rparr>)
         else st\<lparr>summary_lines := summary_lines st @ [line]\<rparr>)"

definition scan_description :: "str \<Rightarrow> scan" where
  "scan_description description =
     foldl scan_line \<lparr>advantages = [], summary_lines = [], in_advantages = False\<rparr>
       (py_split nl None description)"

text \<open>The bodies of the two loops that append to \<open>md\<close>.\<close>

definition add_summary_line :: "str \<Rightarrow> str \<Rightarrow> str" where
  "add_summary_line md line = (if strip line \<noteq> [] then md @ line @ [nl] else md)"

definition add_advantage :: "str \<Rightarrow> str \<Rightarrow> str" where
  "add_advantage md adv = md @ adv @ [nl]"

text \<open>The closing f-string: the fixed sections and the note that names the tool.\<close>

definition scaffold :: "str \<Rightarrow> str" where
  "scaffold tool_name =
     [nl] @ ascii ''## Parameters'' @ [nl, nl]
     @ ascii ''### Required'' @ [nl]
     @ ascii ''- (See implementation for parameters)'' @ [nl, nl]
     @ ascii ''### Optional'' @ [nl]
     @ ascii ''- (See implementation for optional parameters)'' @ [nl, nl]
     @ ascii ''## Returns'' @ [nl, nl]
     @ ascii ''- Tool execution results with structured output'' @ [nl]
     @ ascii ''- Success/failure status'' @ [nl]
     @ ascii ''- Guidance for next steps'' @ [nl, nl]
     @ ascii ''## Related Tools'' @ [nl, nl]
     @ ascii ''- See MCP server documentation for related tools'' @ [nl, nl]
     @ ascii ''## Notes'' @ [nl, nl]
     @ ascii ''- Tool is auto-registered with MCP server'' @ [nl]
     @ ascii ''- Full documentation in '' @ py_replace (ascii ''-'') (ascii ''_'') tool_name
     @ ascii ''.ts'' @ [nl]"

definition format_markdown :: "str \<Rightarrow> str \<Rightarrow> str" where
  "format_markdown tool_name description =
     (let st = scan_description description;
          md = ascii ''# '' @ tool_name @ [nl, nl];
          md = foldl add_summary_line md (take 5 (summary_lines st));
          md = (if advantages st \<noteq> []
                then foldl add_advantage (md @ [nl] @ ascii ''## Advantages'' @ [nl, nl])
                       (take 5 (advantages st))
                else md)
      in md @ scaffold tool_name)"


subsection \<open>main\<close>

text \<open>The lines \<open>main\<close> prints, one constructor for each \<open>print\<close> call.\<close>

datatype xevent =
    Extracting
  | CouldNotFind str
  | Found nat
  | CategoryHeader str nat
  | AlreadyExists str
  | GeneratedFile str
  | Summary nat nat "str list"

text \<open>What a run has done so far: the files, the output, the counter.\<close>

record gen =
  fs :: "str fsys"
  printed :: "xevent list"
  generated_count :: nat

definition say :: "xevent \<Rightarrow> gen \<Rightarrow> gen" where
  "say e g = g\<lparr>printed := printed g @ [e]\<rparr>"

definition index_path :: str where
  "index_path = ascii ''src/index.ts''"

text \<open>\<open>parse_index_ts\<close>: the read raises when the file cannot be opened.\<close>

definition parse_index_ts :: "str fsys \<Rightarrow> str \<Rightarrow> exn + (str \<times> str) list" where
  "parse_index_ts w file_path =
     (case read_file w file_path of Inl e \<Rightarrow> Inl e | Inr content \<Rightarrow> parse_content content)"

text \<open>
  The dictionary \<open>by_category\<close> keeps its keys in insertion order: an association list.
  \<open>dict_append\<close> is the body of the grouping loop after the category is known.
\<close>

definition dict_append ::
  "str \<Rightarrow> (str \<times> str) \<Rightarrow> (str \<times> (str \<times> str) list) list \<Rightarrow> (str \<times> (str \<times> str) list) list" where
  "dict_append category tool by_category =
     (let d = (if category \<in> set (map fst by_category) then by_category
               else by_category @ [(category, [])])
      in map (\<lambda>(k, ts). if k = category then (k, ts @ [tool]) else (k, ts)) d)"

fun group_tools ::
  "(str \<times> str) list \<Rightarrow> (str \<times> (str \<times> str) list) list
     \<Rightarrow> exn + (str \<times> (str \<times> str) list) list" where
  "group_tools [] by_category = Inr by_category"
| "group_tools ((tool_name, description) # tools) by_category =
     (case get_tool_category tool_name of
        Inl e \<Rightarrow> Inl e
      | Inr category \<Rightarrow>
          group_tools tools (dict_append category (tool_name, description) by_category))"

definition md_path_of :: "str \<Rightarrow> str \<Rightarrow> str" where
  "md_path_of category_dir tool_filename =
     category_dir @ ascii ''/'' @ tool_filename @ ascii ''.md''"

text \<open>
  The inner loop \<open>for tool_name, description in category_tools\<close>. The first component of
  the result is the exception that ended the loop, if one did.
\<close>

fun generate_tools :: "str \<Rightarrow> (str \<times> str) list \<Rightarrow> gen \<Rightarrow> exn option \<times> gen" where
  "generate_tools category_dir [] g = (None, g)"
| "generate_tools category_dir ((tool_name, description) # tools) g =
     (case get_tool_filename tool_name of
        Inl e \<Rightarrow> (Some e, g)
      | Inr tool_filename \<Rightarrow>
          if path_exists (fs g) (md_path_of category_dir tool_filename)
          then generate_tools category_dir tools (say (AlreadyExists tool_filename) g)
          else (case makedirs (fs g) category_dir of
                  Some e \<Rightarrow> (Some e, g)
                | None \<Rightarrow>
                   (case write_file (fs g) (md_path_of category_dir tool_filename)
                           (format_markdown tool_name description) of
                      Inl e \<Rightarrow> (Some e, g)
                    | Inr w \<Rightarrow>
                        generate_tools category_dir tools
                          (say (GeneratedFile tool_filename)
                             (g\<lparr>fs := w, generated_count := generated_count g + 1\<rparr>)))))"

text \<open>The outer loop \<open>for category in sorted(by_category.keys())\<close>.\<close>

fun generate_categories ::
  "(str \<times> (str \<times> str) list) list \<Rightarrow> str list \<Rightarrow> gen \<Rightarrow> exn option \<times> gen" where
  "generate_categories by_category [] g = (None, g)"
| "generate_categories by_category (category # cs) g =
     (case map_of by_category category of
        None \<Rightarrow> (Some KeyError, g)
      | Some category_tools \<Rightarrow>
          (case generate_tools (ascii ''src/tools/'' @ category) category_tools
                  (say (CategoryHeader category (length category_tools)) g) of
             (Some e, g') \<Rightarrow> (Some e, g')
           | (None, g') \<Rightarrow> generate_categories by_category cs g'))"

definition extractor_main :: "str fsys \<Rightarrow> exn option \<times> gen" where
  "extractor_main w =
     (let g = \<lparr>fs = w, printed = [Extracting], generated_count = 0\<rparr>
      in if \<not> path_exists w index_path then (None, say (CouldNotFind index_path) g)
         else (case parse_index_ts w index_path of
                 Inl e \<Rightarrow> (Some e, g)
               | Inr tools \<Rightarrow>
                  (case group_tools tools [] of
                     Inl e \<Rightarrow> (Some e, say (Found (length tools)) g)
                   | Inr by_category \<Rightarrow>
                      (case generate_categories by_category (sort (map fst by_category))
                              (say (Found (length tools)) g) of
                         (Some e, g') \<Rightarrow> (Some e, g')
                       | (None, g') \<Rightarrow>
                           (None, say (Summary (generated_count g') (length tools)
                                         (sort (map fst by_category))) g')))))"

section \<open>The injector: scripts/add-jsdoc.py\<close>

subsection \<open>load_md_content\<close>

text \<open>\<open>match.group(1)\<close> of the result of \<open>re.search\<close>, when there is a match.\<close>

definition group1 :: "(nat \<times> mstate) option \<Rightarrow> exn + str option" where
  "group1 found =
     (case found of
        None \<Rightarrow> Inr None
      | Some (i, (g, r)) \<Rightarrow> (case item g 0 of Inl e \<Rightarrow> Inl e | Inr x \<Rightarrow> Inr (Some x)))"

text \<open>\<^verbatim>\<open>^#\s+(.+)$\<close> with \<open>re.MULTILINE\<close>.\<close>

definition title_pattern :: matcher where
  "title_pattern = seqs [lit (ascii ''#''), greedy 1 is_space, group (greedy 1 not_nl), eol]"

text \<open>\<^verbatim>\<open>^#.*?\n\n(.+?)(?:\n\n|##)\<close> with \<open>re.MULTILINE | re.DOTALL\<close>.\<close>

definition para_pattern :: matcher where
  "para_pattern =
     seqs [lit (ascii ''#''), lazy 0 any_char, lit [nl, nl], group (lazy 1 any_char),
           alt (lit [nl, nl]) (lit (ascii ''##''))]"

text \<open>
  \<^verbatim>\<open>## Advantages.*?\n\n(.+?)(?:\n\n##|$)\<close> and \<^verbatim>\<open>## Parameters.*?\n\n(.+?)(?:\n\n##|$)\<close>
  with \<open>re.DOTALL\<close>.
\<close>

definition section_pattern :: "str \<Rightarrow> matcher" where
  "section_pattern heading_text =
     seqs [lit heading_text, lazy 0 any_char, lit [nl, nl], group (lazy 1 any_char),
           alt (lit ([nl, nl] @ ascii ''##'')) eos]"

text \<open>The loop over the lines of the advantages text, before the cut to four.\<close>

fun bullet_lines :: "str list \<Rightarrow> str list" where
  "bullet_lines [] = []"
| "bullet_lines (line # lines) =
     (if prefix [bullet] (strip line) \<or> prefix (ascii ''-'') (strip line)
      then strip line # bullet_lines lines
      else bullet_lines lines)"

text \<open>The list \<open>advantages\<close> when the function has finished with it.\<close>

definition md_advantages :: "str \<Rightarrow> exn + str list" where
  "md_advantages content =
     (case group1 (re_search False (section_pattern (ascii ''## Advantages'')) content) of
        Inl e \<Rightarrow> Inl e
      | Inr None \<Rightarrow> Inr []
      | Inr (Some adv_text) \<Rightarrow> Inr (take 4 (bullet_lines (py_split nl None adv_text))))"

text \<open>The loop over the first four lines of the parameters text.\<close>

fun param_lines :: "str list \<Rightarrow> str list" where
  "param_lines [] = []"
| "param_lines (line # lines) =
     (if strip line \<noteq> [] \<and> \<not> prefix (ascii ''#'') (strip line)
      then (ascii ''- '' @ strip line) # param_lines lines
      else param_lines lines)"

definition md_params :: "str \<Rightarrow> exn + str list" where
  "md_params content =
     (case group1 (re_search False (section_pattern (ascii ''## Parameters'')) content) of
        Inl e \<Rightarrow> Inl e
      | Inr None \<Rightarrow> Inr []
      | Inr (Some params_text) \<Rightarrow> Inr (param_lines (take 4 (py_split nl None params_text))))"

record md_info =
  title :: str
  what_it_does :: str
  why_use :: str
  parameters :: str
  returns :: str
  example :: str

text \<open>\<open>load_md_content\<close> after the file has been read.\<close>

definition md_fields :: "str \<Rightarrow> exn + md_info" where
  "md_fields content =
     (case group1 (re_search True title_pattern content) of
        Inl e \<Rightarrow> Inl e
      | Inr title_match \<Rightarrow>
     (case group1 (re_search True para_pattern content) of
        Inl e \<Rightarrow> Inl e
      | Inr para_match \<Rightarrow>
     (case md_advantages content of
        Inl e \<Rightarrow> Inl e
      | Inr advs \<Rightarrow>
     (case md_params content of
        Inl e \<Rightarrow> Inl e
      | Inr params \<Rightarrow>
          Inr \<lparr>title = (case title_match of Some t \<Rightarrow> t | None \<Rightarrow> ascii ''Tool''),
               what_it_does = (case para_match of Some t \<Rightarrow> strip t
                               | None \<Rightarrow> ascii ''No description available''),
               why_use = (if advs \<noteq> [] then py_join ([nl] @ ascii '' * '') advs
                          else ascii ''- Provides enhanced functionality over raw CLI commands''),
               parameters = (if params \<noteq> [] then py_join ([nl] @ ascii '' * '') params
                             else ascii ''- See implementation for parameters''),
               returns = ascii ''Structured result with status, metadata, and guidance'',
               example = ascii ''await toolFunction(args)''\<rparr>))))"

text \<open>
  \<open>load_md_content\<close>: the empty dictionary (\<open>None\<close>) when the file does not exist; any
  other failure of the read is not caught.
\<close>

definition load_md_content :: "'p fsys \<Rightarrow> 'p \<Rightarrow> exn + md_info option" where
  "load_md_content w md_path =
     (case read_file w md_path of
        Inl e \<Rightarrow> if e = FileNotFoundError then Inr None else Inl e
      | Inr content \<Rightarrow> (case md_fields content of Inl e \<Rightarrow> Inl e | Inr info \<Rightarrow> Inr (Some info)))"

subsection \<open>find_function_export\<close>

text \<open>
  \<open>\w\<close> is an underscore or a character that Python's Unicode tables class as
  alphanumeric (\<open>str.isalnum\<close>). Those tables belong to the interpreter, not to this
  repository: they are the parameter \<open>alnum\<close>. \<open>ascii_alnum\<close> is their ASCII part.
\<close>

definition is_word :: "(nat \<Rightarrow> bool) \<Rightarrow> nat \<Rightarrow> bool" where
  "is_word alnum c = (alnum c \<or> c = 95)"

definition ascii_alnum :: "nat \<Rightarrow> bool" where
  "ascii_alnum c = (48 \<le> c \<and> c \<le> 57 \<or> 65 \<le> c \<and> c \<le> 90 \<or> 97 \<le> c \<and> c \<le> 122)"

text \<open>
  \<^verbatim>\<open>(export\s+(?:async\s+)?function\s+\w+\(.*?\)\s*(?::\s*\w+)?\s*\{)\<close>, without flags.
\<close>

definition export_pattern :: "(nat \<Rightarrow> bool) \<Rightarrow> matcher" where
  "export_pattern alnum =
     group (seqs [lit (ascii ''export''), greedy 1 is_space,
                  opt (seq (lit (ascii ''async'')) (greedy 1 is_space)),
                  lit (ascii ''function''), greedy 1 is_space,
                  greedy 1 (is_word alnum), lit (ascii ''(''), lazy 0 not_nl, lit (ascii '')''),
                  greedy 0 is_space,
                  opt (seqs [lit (ascii '':''), greedy 0 is_space, greedy 1 (is_word alnum)]),
                  greedy 0 is_space, lit (ascii ''{'')])"

text \<open>
  The result \<open>(start_pos, func_start)\<close> is \<open>Some\<close> of the pair, \<open>(None, None)\<close> is \<open>None\<close>.
  The body does not use \<open>tool_name\<close>.
\<close>

definition find_function_export ::
  "(nat \<Rightarrow> bool) \<Rightarrow> str \<Rightarrow> str \<Rightarrow> exn + (nat \<times> str) option" where
  "find_function_export alnum content tool_name =
     (case re_search False (export_pattern alnum) content of
        None \<Rightarrow> Inr None
      | Some (start_pos, (g, r)) \<Rightarrow>
          (case item g 0 of Inl e \<Rightarrow> Inl e | Inr func_start \<Rightarrow> Inr (Some (start_pos, func_start))))"

subsection \<open>add_jsdoc_to_file\<close>

text \<open>\<open>JSDOC_TEMPLATE.format(...)\<close>; 39 is the apostrophe of \<open>you'd\<close>.\<close>

definition render_jsdoc :: "md_info \<Rightarrow> str \<Rightarrow> str" where
  "render_jsdoc info md_file =
     ascii ''/**'' @ [nl]
     @ ascii '' * '' @ title info @ [nl]
     @ ascii '' *'' @ [nl]
     @ ascii '' * **What it does:**'' @ [nl]
     @ ascii '' * '' @ what_it_does info @ [nl]
     @ ascii '' *'' @ [nl]
     @ ascii '' * **Why you'' @ [39] @ ascii ''d use it:**'' @ [nl]
     @ ascii '' * '' @ why_use info @ [nl]
     @ ascii '' *'' @ [nl]
     @ ascii '' * **Parameters:**'' @ [nl]
     @ ascii '' * '' @ parameters info @ [nl]
     @ ascii '' *'' @ [nl]
     @ ascii '' * **Returns:**'' @ [nl]
     @ ascii '' * '' @ returns info @ [nl]
     @ ascii '' *'' @ [nl]
     @ ascii '' * **Example:**'' @ [nl]
     @ ascii '' * ```typescript'' @ [nl]
     @ ascii '' * '' @ example info @ [nl]
     @ ascii '' * ```'' @ [nl]
     @ ascii '' *'' @ [nl]
     @ ascii '' * **Full documentation:** See '' @ md_file
     @ ascii '' for detailed parameters and examples'' @ [nl]
     @ ascii '' *'' @ [nl]
     @ ascii '' * @param args Tool arguments'' @ [nl]
     @ ascii '' * @returns Tool result with status and guidance'' @ [nl]
     @ ascii '' */''"

text \<open>The test \<open>'/**' in content[:500]\<close>.\<close>

definition jsdoc_exists :: "str \<Rightarrow> bool" where
  "jsdoc_exists content = contains (take 500 content) (ascii ''/**'')"

text \<open>\<open>content[:start_pos] + jsdoc + '\n' + content[start_pos:]\<close>.\<close>

definition insert_jsdoc :: "str \<Rightarrow> nat \<Rightarrow> str \<Rightarrow> str" where
  "insert_jsdoc content start_pos jsdoc =
     take start_pos content @ jsdoc @ [nl] @ drop start_pos content"

text \<open>
  A path that \<open>pathlib\<close> builds as directory \<open>/\<close> name is kept as the pair (parent, name).
  \<open>relative_to\<close> is needed for a file and a directory that is its parent, where it gives
  the name; for any other directory the model raises ValueError.
\<close>

type_synonym path = "str \<times> str"

definition relative_to :: "path \<Rightarrow> str \<Rightarrow> exn + str" where
  "relative_to p d = (if fst p = d then Inr (snd p) else Inl ValueError)"

text \<open>The lines the injector prints, and each \<open>open\<close> call it makes.\<close>

datatype jevent =
    Adding
  | CategoryLine str nat
  | MultiExport str
  | CouldNotRead path
  | JSDocExists str
  | NoMarkdown str
  | NoExport str
  | Updated str
  | CouldNotWrite path
  | Tally nat nat

record inj =
  jfs :: "path fsys"
  jprinted :: "jevent list"
  opened :: "path list"
  total_count :: nat
  success_count :: nat

definition jsay :: "jevent \<Rightarrow> inj \<Rightarrow> inj" where
  "jsay e st = st\<lparr>jprinted := jprinted st @ [e]\<rparr>"

definition log_open :: "path \<Rightarrow> inj \<Rightarrow> inj" where
  "log_open p st = st\<lparr>opened := opened st @ [p]\<rparr>"

text \<open>
  \<open>add_jsdoc_to_file\<close>. The result is the exception that escapes, or the Boolean
  returned. The two \<open>try\<close> blocks catch every exception of the read and of the write;
  nothing catches an exception of \<open>load_md_content\<close>, of the call of
  \<open>find_function_export\<close> or of \<open>relative_to\<close>. The call passes one argument,
  \<open>find_function_export(content)\<close>, to a function declared as
  \<open>find_function_export(content, tool_name)\<close>.
\<close>

definition add_jsdoc_to_file ::
  "(nat \<Rightarrow> bool) \<Rightarrow> path \<Rightarrow> path \<Rightarrow> inj \<Rightarrow> (exn + bool) \<times> inj" where
  "add_jsdoc_to_file alnum file_path md_path st0 =
     (let st = log_open file_path st0
      in case read_file (jfs st) file_path of
           Inl e \<Rightarrow> (Inr False, jsay (CouldNotRead file_path) st)
         | Inr content \<Rightarrow>
             if jsdoc_exists content then (Inr False, jsay (JSDocExists (snd file_path)) st)
             else
              (case load_md_content (jfs st) md_path of
                 Inl e \<Rightarrow> (Inl e, log_open md_path st)
               | Inr None \<Rightarrow> (Inr False, jsay (NoMarkdown (snd file_path)) (log_open md_path st))
               | Inr (Some info) \<Rightarrow>
                  (case call2 (find_function_export alnum) [content] of
                     Inl e \<Rightarrow> (Inl e, log_open md_path st)
                   | Inr (Inl e) \<Rightarrow> (Inl e, log_open md_path st)
                   | Inr (Inr None) \<Rightarrow>
                       (Inr False, jsay (NoExport (snd file_path)) (log_open md_path st))
                   | Inr (Inr (Some (start_pos, func_def))) \<Rightarrow>
                      (case relative_to md_path (fst file_path) of
                         Inl e \<Rightarrow> (Inl e, log_open md_path st)
                       | Inr md_rel_path \<Rightarrow>
                          (let new_content =
                                 insert_jsdoc content start_pos (render_jsdoc info md_rel_path);
                               st' = log_open file_path (log_open md_path st)
                           in case write_file (jfs st') file_path new_content of
                                Inl e \<Rightarrow> (Inr False, jsay (CouldNotWrite file_path) st')
                              | Inr w \<Rightarrow>
                                  (Inr True, jsay (Updated (snd file_path)) (st'\<lparr>jfs := w\<rparr>)))))))"

subsection \<open>main\<close>

definition injector_categories :: "str list" where
  "injector_categories =
     [ascii ''xcodebuild'', ascii ''simctl'', ascii ''idb'', ascii ''cache'', ascii ''persistence'']"

definition multi_export_files :: "str list" where
  "multi_export_files =
     [ascii ''cache-management.ts'', ascii ''persistence-tools.ts'', ascii ''index.ts'']"

definition category_dir_of :: "str \<Rightarrow> str" where
  "category_dir_of category = ascii ''src/tools/'' @ category"

text \<open>
  \<open>PurePath.suffix\<close>, \<open>stem\<close> and \<open>with_suffix\<close> on the name of a file: the suffix starts
  at the last dot, unless that dot is the first or the last character of the name.
\<close>

definition path_suffix :: "str \<Rightarrow> str" where
  "path_suffix name =
     (let tail = takeWhile (\<lambda>c. c \<noteq> 46) (rev name)
      in if 46 \<in> set name \<and> tail \<noteq> [] \<and> Suc (length tail) < length name
         then 46 # rev tail else [])"

definition stem :: "str \<Rightarrow> str" where
  "stem name = take (length name - length (path_suffix name)) name"

definition with_suffix :: "str \<Rightarrow> str \<Rightarrow> str" where
  "with_suffix name new_suffix = stem name @ new_suffix"

text \<open>
  The sidecar of a source file: the same name with the suffix \<open>.md\<close>, or, when no such
  file exists, one of the two alternative names.
\<close>

definition md_file_of :: "path fsys \<Rightarrow> path \<Rightarrow> path" where
  "md_file_of w ts_file =
     (let md_file = (fst ts_file, with_suffix (snd ts_file) (ascii ''.md''))
      in if \<not> path_exists w md_file
         then (if stem (snd ts_file) = ascii ''xcodebuild-test''
               then (fst ts_file, ascii ''test.md'')
               else if stem (snd ts_file) = ascii ''screenshot-inline''
               then (fst ts_file, ascii ''screenshot-inline.md'')
               else md_file)
         else md_file)"

text \<open>The inner loop \<open>for ts_file in ts_files\<close>, over the names the directory lists.\<close>

fun inject_files ::
  "(nat \<Rightarrow> bool) \<Rightarrow> str \<Rightarrow> str list \<Rightarrow> inj \<Rightarrow> exn option \<times> inj" where
  "inject_files alnum category_dir [] st = (None, st)"
| "inject_files alnum category_dir (name # names) st =
     (if name \<in> set multi_export_files
      then inject_files alnum category_dir names (jsay (MultiExport name) st)
      else (case add_jsdoc_to_file alnum (category_dir, name)
                   (md_file_of (jfs st) (category_dir, name))
                   (st\<lparr>total_count := total_count st + 1\<rparr>) of
              (Inl e, st') \<Rightarrow> (Some e, st')
            | (Inr ok, st') \<Rightarrow>
                inject_files alnum category_dir names
                  (if ok then st'\<lparr>success_count := success_count st' + 1\<rparr> else st')))"

text \<open>
  The outer loop \<open>for category in categories\<close>. \<open>ls\<close> gives, for a directory, the sorted
  names that \<open>Path(category_dir).glob('*.ts')\<close> finds there.
\<close>

fun inject_categories ::
  "(nat \<Rightarrow> bool) \<Rightarrow> (str \<Rightarrow> str list) \<Rightarrow> str list \<Rightarrow> inj \<Rightarrow> exn option \<times> inj" where
  "inject_categories alnum ls [] st = (None, st)"
| "inject_categories alnum ls (category # cs) st =
     (case inject_files alnum (category_dir_of category) (ls (category_dir_of category))
             (jsay (CategoryLine category (length (ls (category_dir_of category)))) st) of
        (Some e, st') \<Rightarrow> (Some e, st')
      | (None, st') \<Rightarrow> inject_categories alnum ls cs st')"

definition injector_main ::
  "(nat \<Rightarrow> bool) \<Rightarrow> (str \<Rightarrow> str list) \<Rightarrow> path fsys \<Rightarrow> exn option \<times> inj" where
  "injector_main alnum ls w =
     (case inject_categories alnum ls injector_categories
             \<lparr>jfs = w, jprinted = [Adding], opened = [], total_count = 0, success_count = 0\<rparr> of
        (Some e, st) \<Rightarrow> (Some e, st)
      | (None, st) \<Rightarrow> (None, jsay (Tally (success_count st) (total_count st)) st))"

section \<open>What the specification calls things\<close>

text \<open>The first dash-delimited token of an identifier: everything before its first dash.\<close>

definition first_token :: "str \<Rightarrow> str" where
  "first_token tool_name = takeWhile (\<lambda>c. c \<noteq> dash) tool_name"

text \<open>The enumerated set of categories of the specification.\<close>

definition known_categories :: "str set" where
  "known_categories =
     {ascii ''xcodebuild'', ascii ''simctl'', ascii ''idb'', ascii ''cache'',
      ascii ''persistence''}"

text \<open>An identifier with its first token and the dash after it removed.\<close>

definition strip_category_prefix :: "str \<Rightarrow> str" where
  "strip_category_prefix tool_name = drop (Suc (length (first_token tool_name))) tool_name"

text \<open>The summary lines: the lines the scan does not give to the advantages.\<close>

definition summary_of :: "str \<Rightarrow> str list" where
  "summary_of description = summary_lines (scan_description description)"

definition nonblank :: "str \<Rightarrow> bool" where
  "nonblank line = (strip line \<noteq> [])"

text \<open>The level-1 heading and the blank line after it.\<close>

definition heading :: "str \<Rightarrow> str" where
  "heading tool_name = ascii ''# '' @ tool_name @ [nl, nl]"

definition as_lines :: "str list \<Rightarrow> str" where
  "as_lines ls = concat (map (\<lambda>l. l @ [nl]) ls)"

text \<open>
  The beginning of the document as the specification words it: the heading, then the
  first five non-blank summary lines.
\<close>

definition first_nonblank_summary :: "str \<Rightarrow> str \<Rightarrow> str" where
  "first_nonblank_summary tool_name description =
     heading tool_name @ as_lines (take 5 (filter nonblank (summary_of description)))"

section \<open>Notions of the proofs\<close>

text \<open>A file system without files, in which every call succeeds.\<close>

definition empty_fs :: "'p fsys" where
  "empty_fs =
     \<lparr>files = Map.empty, readable = (\<lambda>p. True), writable = (\<lambda>p. True),
      dir_ok = (\<lambda>p. True)\<rparr>"

text \<open>
  \<open>extends w w'\<close>: every file of \<open>w\<close> is in \<open>w'\<close> with the same text, and the calls that
  succeed are the same.
\<close>

definition extends :: "'p fsys \<Rightarrow> 'p fsys \<Rightarrow> bool" where
  "extends w w' =
     (readable w' = readable w \<and> writable w' = writable w \<and> dir_ok w' = dir_ok w
      \<and> (\<forall>p. files w p \<noteq> None \<longrightarrow> files w' p = files w p))"

text \<open>The base name and the category the specification derives from an identifier.\<close>

definition filename_of :: "str \<Rightarrow> str" where
  "filename_of n = (if dash \<in> set n then strip_category_prefix n else n)"

text \<open>The lines that report every tool of a list as existing already.\<close>

definition skips :: "(str \<times> str) list \<Rightarrow> xevent list" where
  "skips tools = map (\<lambda>(n, desc). AlreadyExists (filename_of n)) tools"

definition category_of :: "str \<Rightarrow> str" where
  "category_of n = (if first_token n \<in> known_categories then first_token n else ascii ''unknown'')"

text \<open>The path of the sidecar document of a tool.\<close>

definition sidecar_path :: "str \<Rightarrow> str" where
  "sidecar_path n = md_path_of (ascii ''src/tools/'' @ category_of n) (filename_of n)"

text \<open>\<open>heads m st r\<close>: the first way in which \<open>m\<close> matches at \<open>st\<close> leaves \<open>r\<close>.\<close>

definition heads :: "matcher \<Rightarrow> mstate \<Rightarrow> mstate \<Rightarrow> bool" where
  "heads m st r = (\<exists>rest. m st = r # rest)"

text \<open>
  A registration statement, written out: the whitespace between its tokens, the two
  delimiters of the identifier and the two of the description are parameters.
\<close>

definition registration ::
  "str \<Rightarrow> nat \<Rightarrow> str \<Rightarrow> nat \<Rightarrow> str \<Rightarrow> str \<Rightarrow> str \<Rightarrow> nat \<Rightarrow> str \<Rightarrow> nat \<Rightarrow> str" where
  "registration ws1 q1 name q2 ws2 ws3 ws4 q3 description q4 =
     ascii ''this.server.registerTool('' @ ws1 @ q1 # name @ q2 # ascii '','' @ ws2
     @ ascii ''{'' @ ws3 @ ascii ''description:'' @ ws4 @ q3 # description @ [q4]"

text \<open>\<open>adds k m\<close>: every match of \<open>m\<close> captures exactly \<open>k\<close> groups.\<close>

definition adds :: "nat \<Rightarrow> matcher \<Rightarrow> bool" where
  "adds k m = (\<forall>g s g' r. (g', r) \<in> set (m (g, s)) \<longrightarrow> length g' = length g + k)"

text \<open>The description as the extractor stores it.\<close>

definition normalized :: "str \<Rightarrow> str" where
  "normalized description = py_replace [92, 110] [nl] (strip description)"






section \<open>Examples\<close>

text \<open>The inputs at which the theorems below are evaluated.\<close>

definition seven_lines :: str where
  "seven_lines =
     ascii ''a'' @ [nl, nl] @ ascii ''b'' @ [nl, nl] @ ascii ''c'' @ [nl, nl] @ ascii ''d''"




definition one_tool_index :: str where
  "one_tool_index =
     registration [] 39 (ascii ''simctl-boot'') 39 [32] [32] [32] 96 (ascii ''Boot a device'') 96
     @ ascii '',''"

definition one_tool_fs :: "str fsys" where
  "one_tool_fs = empty_fs\<lparr>files := [index_path \<mapsto> one_tool_index]\<rparr>"





definition xcodebuild_dir :: str where
  "xcodebuild_dir = category_dir_of (ascii ''xcodebuild'')"

definition short_export :: str where
  "short_export = ascii ''export async function build(args: any) {''"

definition two_tools_ls :: "str \<Rightarrow> str list" where
  "two_tools_ls d = (if d = xcodebuild_dir then [ascii ''build.ts'', ascii ''clean.ts''] else [])"

definition two_tools_fs :: "path fsys" where
  "two_tools_fs =
     empty_fs\<lparr>files :=
       [(xcodebuild_dir, ascii ''build.ts'') \<mapsto> short_export,
        (xcodebuild_dir, ascii ''build.md'') \<mapsto> ascii ''# build'',
        (xcodebuild_dir, ascii ''clean.ts'') \<mapsto> short_export,
        (xcodebuild_dir, ascii ''clean.md'') \<mapsto> ascii ''# clean'']\<rparr>"

definition documented_ls :: "str \<Rightarrow> str list" where
  "documented_ls d = (if d = xcodebuild_dir then [ascii ''build.ts'', ascii ''index.ts''] else [])"

definition documented_fs :: "path fsys" where
  "documented_fs =
     empty_fs\<lparr>files :=
       [(xcodebuild_dir, ascii ''build.ts'') \<mapsto> ascii ''/** Build */'' @ [nl] @ short_export,
        (xcodebuild_dir, ascii ''index.ts'') \<mapsto> ascii ''export * from build'']\<rparr>"



section \<open>Splitting\<close>

lemma takeWhile_no_sep:
  "sep \<notin> set s \<Longrightarrow> takeWhile (\<lambda>c. c \<noteq> sep) s = s"
  by (induction s) auto

lemma dropWhile_no_sep:
  "sep \<notin> set s \<Longrightarrow> dropWhile (\<lambda>c. c \<noteq> sep) s = []"
  by (induction s) auto

lemma dropWhile_sep:
  "sep \<in> set s \<Longrightarrow>
     dropWhile (\<lambda>c. c \<noteq> sep) s = sep # drop (Suc (length (takeWhile (\<lambda>c. c \<noteq> sep) s))) s"
  by (induction s) auto

lemma py_split_None_hd:
  "\<exists>rest. py_split sep None s = takeWhile (\<lambda>c. c \<noteq> sep) s # rest"
proof (cases "sep \<in> set s")
  case True
  then show ?thesis
    by (simp add: dropWhile_sep py_split.simps)
next
  case False
  then show ?thesis
    by (simp add: takeWhile_no_sep dropWhile_no_sep py_split.simps)
qed

lemma py_split_once:
  "py_split sep (Some (Suc 0)) s =
     (if sep \<in> set s
      then [takeWhile (\<lambda>c. c \<noteq> sep) s, drop (Suc (length (takeWhile (\<lambda>c. c \<noteq> sep) s))) s]
      else [s])"
proof (cases "sep \<in> set s")
  case True
  then show ?thesis
    by (simp add: dropWhile_sep py_split.simps)
next
  case False
  then show ?thesis
    by (simp add: dropWhile_no_sep py_split.simps)
qed

section \<open>The category classifier\<close>

lemma item_0_Cons: "item (x # xs) 0 = Inr x"
  by (simp add: item_def)

lemma category_items_categories:
  "category_items (p0 # rest) categories =
     Inr (if p0 \<in> known_categories then Some p0 else None)"
  by (simp add: categories_def known_categories_def item_0_Cons)

lemma get_tool_category_total: "get_tool_category n = Inr (category_of n)"
proof -
  obtain rest where "py_split dash None n = first_token n # rest"
    using py_split_None_hd [of dash n] by (auto simp: first_token_def)
  then show ?thesis
    by (simp add: get_tool_category_def category_items_categories unknown_def category_of_def)
qed

text \<open>
  C6. For every identifier the classifier returns normally (never an exception); the
  result is the identifier's first dash-delimited token when that token is one of
  xcodebuild, simctl, idb, cache, persistence, and the sentinel \<open>unknown\<close> for every other
  first token.
\<close>

theorem get_tool_category_first_token:
  "get_tool_category tool_name =
     Inr (if first_token tool_name \<in> known_categories then first_token tool_name
          else ascii ''unknown'')"
  using get_tool_category_total [of tool_name] by (simp add: category_of_def)

theorem get_tool_category_first_token_witness:
  "get_tool_category (ascii ''idb-ui-tap'') = Inr (ascii ''idb'')
   \<and> get_tool_category (ascii ''list-devices'') = Inr (ascii ''unknown'')"
  using get_tool_category_first_token [of "ascii ''idb-ui-tap''"]
    get_tool_category_first_token [of "ascii ''list-devices''"]
  by (simp add: first_token_def known_categories_def ascii_def dash_def)

section \<open>The sidecar filename deriver\<close>

lemma get_tool_filename_total: "get_tool_filename n = Inr (filename_of n)"
  by (simp add: get_tool_filename_def py_split_once item_def strip_category_prefix_def
      first_token_def filename_of_def)

text \<open>
  C7. For an identifier that contains a dash the deriver returns the identifier without
  its first dash-delimited token and the dash after it; for an identifier without a dash
  it returns the identifier unchanged. \<open>simctl-boot-device\<close> gives \<open>boot-device\<close>.
\<close>

theorem get_tool_filename_strips_prefix:
  "(dash \<in> set tool_name \<longrightarrow>
      get_tool_filename tool_name = Inr (strip_category_prefix tool_name))
   \<and> (dash \<notin> set tool_name \<longrightarrow> get_tool_filename tool_name = Inr tool_name)"
  using get_tool_filename_total [of tool_name] by (simp add: filename_of_def)

theorem get_tool_filename_strips_prefix_witness:
  "dash \<in> set (ascii ''simctl-boot-device'')
   \<and> get_tool_filename (ascii ''simctl-boot-device'') = Inr (ascii ''boot-device'')
   \<and> dash \<notin> set (ascii ''health'')
   \<and> get_tool_filename (ascii ''health'') = Inr (ascii ''health'')"
  using get_tool_filename_strips_prefix [of "ascii ''simctl-boot-device''"]
    get_tool_filename_strips_prefix [of "ascii ''health''"]
  by (simp add: strip_category_prefix_def first_token_def ascii_def dash_def)

section \<open>The sidecar formatter\<close>

lemma foldl_add_summary_line:
  "foldl add_summary_line md ls = md @ as_lines (filter nonblank ls)"
  by (induction ls arbitrary: md) (simp_all add: add_summary_line_def as_lines_def nonblank_def)

lemma foldl_add_advantage:
  "foldl add_advantage md ls = md @ as_lines ls"
  by (induction ls arbitrary: md) (simp_all add: add_advantage_def as_lines_def)

lemma scaffold_starts: "\<exists>rest. scaffold tool_name = [nl] @ ascii ''## '' @ rest"
  by (simp add: scaffold_def ascii_def)

lemma split_seven_lines:
  "py_split nl None seven_lines = [[97], [], [98], [], [99], [], [100]]"
  by code_simp

lemma summary_of_seven_lines:
  "summary_of seven_lines = [[97], [], [98], [], [99], [], [100]]"
  by (simp add: summary_of_def scan_description_def split_seven_lines scan_line_def strip_def
      is_space_def ascii_def bullet_def)

text \<open>
  C4, as the specification states it, fails: blank lines among the first five summary
  lines use up the five. The description \<open>a\<close>, blank, \<open>b\<close>, blank, \<open>c\<close>, blank, \<open>d\<close> has
  four non-blank summary lines, and the document does not begin with the heading followed
  by those four: \<open>d\<close> is the seventh summary line and is left out.
\<close>

theorem format_markdown_first_five_counterexample:
  "first_nonblank_summary (ascii ''t'') seven_lines
     = ascii ''# t'' @ [nl, nl] @ ascii ''a'' @ [nl] @ ascii ''b'' @ [nl] @ ascii ''c'' @ [nl]
       @ ascii ''d'' @ [nl]
   \<and> \<not> prefix (first_nonblank_summary (ascii ''t'') seven_lines)
         (format_markdown (ascii ''t'') seven_lines)"
proof -
  have claimed: "first_nonblank_summary (ascii ''t'') seven_lines
     = ascii ''# t'' @ [nl, nl] @ ascii ''a'' @ [nl] @ ascii ''b'' @ [nl] @ ascii ''c'' @ [nl]
       @ ascii ''d'' @ [nl]"
    by (simp add: first_nonblank_summary_def heading_def as_lines_def nonblank_def
        summary_of_seven_lines strip_def is_space_def ascii_def)
  have actual: "take 13 (format_markdown (ascii ''t'') seven_lines)
          = ascii ''# t'' @ [nl, nl] @ ascii ''a'' @ [nl] @ ascii ''b'' @ [nl] @ ascii ''c''
            @ [nl, nl, 35]"
    using summary_of_seven_lines
    by (simp add: format_markdown_def Let_def summary_of_def foldl_add_summary_line
        as_lines_def nonblank_def strip_def is_space_def scan_description_def split_seven_lines
        scan_line_def bullet_def scaffold_def ascii_def)
  have "\<not> prefix (ascii ''# t'' @ [nl, nl] @ ascii ''a'' @ [nl] @ ascii ''b'' @ [nl]
      @ ascii ''c'' @ [nl] @ ascii ''d'' @ [nl]) (format_markdown (ascii ''t'') seven_lines)"
  proof
    assume "prefix (ascii ''# t'' @ [nl, nl] @ ascii ''a'' @ [nl] @ ascii ''b'' @ [nl]
      @ ascii ''c'' @ [nl] @ ascii ''d'' @ [nl]) (format_markdown (ascii ''t'') seven_lines)"
    then obtain rest where "format_markdown (ascii ''t'') seven_lines
        = (ascii ''# t'' @ [nl, nl] @ ascii ''a'' @ [nl] @ ascii ''b'' @ [nl]
           @ ascii ''c'' @ [nl] @ ascii ''d'' @ [nl]) @ rest"
      by (auto simp: prefix_def)
    then have "take 13 (format_markdown (ascii ''t'') seven_lines)
        = ascii ''# t'' @ [nl, nl] @ ascii ''a'' @ [nl] @ ascii ''b'' @ [nl]
           @ ascii ''c'' @ [nl] @ ascii ''d'' @ [nl]"
      by (simp add: ascii_def)
    with actual show False
      by (simp add: ascii_def nl_def)
  qed
  with claimed show ?thesis by simp
qed

text \<open>
  C4, amended. For every identifier and description the document begins with the level-1
  heading that holds the raw identifier and a blank line, followed by the non-blank lines
  among the first five summary lines of the description, each on a line of its own; a
  blank line and a level-2 heading come next.
\<close>

theorem format_markdown_summary:
  "\<exists>rest. format_markdown tool_name description =
     heading tool_name @ as_lines (filter nonblank (take 5 (summary_of description)))
     @ [nl] @ ascii ''## '' @ rest"
proof -
  obtain r where r: "scaffold tool_name = [nl] @ ascii ''## '' @ r"
    using scaffold_starts by blast
  show ?thesis
  proof (cases "advantages (scan_description description) = []")
    case True
    then show ?thesis
      by (simp add: format_markdown_def Let_def foldl_add_summary_line heading_def
          summary_of_def r)
  next
    case False
    then show ?thesis
      by (simp add: format_markdown_def Let_def foldl_add_summary_line foldl_add_advantage
          heading_def summary_of_def ascii_def)
  qed
qed

theorem format_markdown_summary_witness:
  "\<exists>rest. format_markdown (ascii ''t'') seven_lines =
     ascii ''# t'' @ [nl, nl] @ ascii ''a'' @ [nl] @ ascii ''b'' @ [nl] @ ascii ''c'' @ [nl]
     @ [nl] @ ascii ''## '' @ rest"
  using format_markdown_summary [of "ascii ''t''" seven_lines]
  by (simp add: heading_def as_lines_def nonblank_def summary_of_seven_lines strip_def
      is_space_def ascii_def)


section \<open>The first match of a pattern\<close>

lemma heads_lit: "heads (lit l) (g, l @ s) (g, s)"
  by (simp add: heads_def)

lemma heads_one: "p c \<Longrightarrow> heads (one p) (g, c # s) (g, s)"
  by (simp add: heads_def)

lemma suffixes_while_append:
  "\<forall>c\<in>set ws. p c \<Longrightarrow> s = [] \<or> \<not> p (hd s) \<Longrightarrow>
     suffixes_while p (ws @ s) = map (\<lambda>k. drop k ws @ s) [0..<length ws] @ [s]"
proof (induction ws)
  case Nil
  then show ?case by (cases s) auto
next
  case (Cons a ws)
  have "[0..<length (a # ws)] = 0 # map Suc [0..<length ws]"
    by (simp add: upt_conv_Cons map_Suc_upt del: upt_Suc)
  with Cons show ?case by (simp add: comp_def)
qed

lemma heads_greedy:
  assumes "\<forall>c\<in>set ws. p c" "s = [] \<or> \<not> p (hd s)" "lo \<le> length ws"
  shows "heads (greedy lo p) (g, ws @ s) (g, s)"
proof -
  have "drop lo (suffixes_while p (ws @ s)) = drop lo (map (\<lambda>k. drop k ws @ s) [0..<length ws]) @ [s]"
    using assms by (simp add: suffixes_while_append)
  then show ?thesis
    by (simp add: heads_def)
qed

lemma heads_seqs:
  "heads m st r1 \<Longrightarrow> heads (seqs ms) r1 r2 \<Longrightarrow> heads (seqs (m # ms)) st r2"
  by (auto simp: heads_def)

lemma heads_seq:
  "heads m1 st r1 \<Longrightarrow> heads m2 r1 r2 \<Longrightarrow> heads (seq m1 m2) st r2"
  by (auto simp: heads_def seq_def)

lemma heads_opt: "heads m st r \<Longrightarrow> heads (opt m) st r"
  by (auto simp: heads_def opt_def)

lemma heads_group:
  "heads m (g, s) (g', r) \<Longrightarrow> heads (group m) (g, s) (g' @ [take (length s - length r) s], r)"
  by (auto simp: heads_def)

lemma heads_seqs_Nil: "heads (seqs []) st st"
  by (simp add: heads_def)

lemma register_pattern_heads:
  assumes ws: "\<forall>c\<in>set ws1. is_space c" "\<forall>c\<in>set ws2. is_space c"
      "\<forall>c\<in>set ws3. is_space c" "\<forall>c\<in>set ws4. is_space c"
    and q: "is_quote q1" "is_quote q2" "is_tick q3" "is_tick q4"
    and name: "name \<noteq> []" "\<forall>c\<in>set name. \<not> is_quote c"
    and desc: "\<forall>c\<in>set description. \<not> is_tick c"
  shows "heads register_pattern
           ([], registration ws1 q1 name q2 ws2 ws3 ws4 q3 description q4 @ rest)
           ([name, description], rest)"
proof -
  define t13 where "t13 = q4 # rest"
  define t12 where "t12 = description @ t13"
  define t11 where "t11 = q3 # t12"
  define t10 where "t10 = ws4 @ t11"
  define t9 where "t9 = ascii ''description:'' @ t10"
  define t8 where "t8 = ws3 @ t9"
  define t7 where "t7 = ascii ''{'' @ t8"
  define t6 where "t6 = ws2 @ t7"
  define t5 where "t5 = ascii '','' @ t6"
  define t4 where "t4 = q2 # t5"
  define t3 where "t3 = name @ t4"
  define t2 where "t2 = q1 # t3"
  define t1 where "t1 = ws1 @ t2"
  define t0 where "t0 = ascii ''this.server.registerTool('' @ t1"
  have nsq: "\<not> is_space q1" "\<not> is_space q3"
    using q by (auto simp: is_quote_def is_tick_def is_space_def)
  have s1: "heads (lit (ascii ''this.server.registerTool('')) ([], t0) ([], t1)"
    unfolding t0_def by (rule heads_lit)
  have s2: "heads (greedy 0 is_space) ([], t1) ([], t2)"
    unfolding t1_def using ws nsq by (intro heads_greedy) (simp_all add: t2_def)
  have s3: "heads (one is_quote) ([], t2) ([], t3)"
    unfolding t2_def using q by (intro heads_one)
  have "heads (greedy 1 (\<lambda>c. \<not> is_quote c)) ([], t3) ([], t4)"
    unfolding t3_def using name q by (intro heads_greedy) (auto simp: t4_def Suc_le_eq)
  from heads_group [OF this]
  have s4: "heads (group (greedy 1 (\<lambda>c. \<not> is_quote c))) ([], t3) ([name], t4)"
    by (simp add: t3_def)
  have s5: "heads (one is_quote) ([name], t4) ([name], t5)"
    unfolding t4_def using q by (intro heads_one)
  have s6: "heads (lit (ascii '','')) ([name], t5) ([name], t6)"
    unfolding t5_def by (rule heads_lit)
  have s7: "heads (greedy 0 is_space) ([name], t6) ([name], t7)"
    unfolding t6_def using ws by (intro heads_greedy) (simp_all add: t7_def is_space_def ascii_def)
  have s8: "heads (lit (ascii ''{'')) ([name], t7) ([name], t8)"
    unfolding t7_def by (rule heads_lit)
  have s9: "heads (greedy 0 is_space) ([name], t8) ([name], t9)"
    unfolding t8_def using ws by (intro heads_greedy) (simp_all add: t9_def is_space_def ascii_def)
  have s10: "heads (lit (ascii ''description:'')) ([name], t9) ([name], t10)"
    unfolding t9_def by (rule heads_lit)
  have s11: "heads (greedy 0 is_space) ([name], t10) ([name], t11)"
    unfolding t10_def using ws nsq by (intro heads_greedy) (simp_all add: t11_def)
  have s12: "heads (one is_tick) ([name], t11) ([name], t12)"
    unfolding t11_def using q by (intro heads_one)
  have a: "heads (greedy 0 (\<lambda>c. \<not> is_tick c)) ([name], t12) ([name], t13)"
    unfolding t12_def using desc q by (intro heads_greedy) (simp_all add: t13_def)
  have "heads (greedy 0 (\<lambda>c. \<not> is_tick c)) ([name], [] @ t13) ([name], t13)"
    using q by (intro heads_greedy) (simp_all add: t13_def)
  then have b: "heads (opt (greedy 0 (\<lambda>c. \<not> is_tick c))) ([name], t13) ([name], t13)"
    by (intro heads_opt) simp
  from heads_group [OF heads_seq [OF a b]]
  have s13: "heads (group (seq (greedy 0 (\<lambda>c. \<not> is_tick c)) (opt (greedy 0 (\<lambda>c. \<not> is_tick c)))))
      ([name], t12) ([name, description], t13)"
    by (simp add: t12_def)
  have s14: "heads (one is_tick) ([name, description], t13) ([name, description], rest)"
    unfolding t13_def using q by (intro heads_one)
  note c = heads_seqs [OF s1 heads_seqs [OF s2 heads_seqs [OF s3 heads_seqs [OF s4
    heads_seqs [OF s5 heads_seqs [OF s6 heads_seqs [OF s7 heads_seqs [OF s8
    heads_seqs [OF s9 heads_seqs [OF s10 heads_seqs [OF s11 heads_seqs [OF s12
    heads_seqs [OF s13 heads_seqs [OF s14 heads_seqs_Nil]]]]]]]]]]]]]]
  have "registration ws1 q1 name q2 ws2 ws3 ws4 q3 description q4 @ rest = t0"
    by (simp add: registration_def t0_def t1_def t2_def t3_def t4_def t5_def t6_def t7_def
        t8_def t9_def t10_def t11_def t12_def t13_def)
  with c show ?thesis
    by (simp add: register_pattern_def)
qed

section \<open>Parsing the index\<close>

lemma addsD: "adds k m \<Longrightarrow> (g', r) \<in> set (m (g, s)) \<Longrightarrow> length g' = length g + k"
  unfolding adds_def by blast

lemma addsI: "(\<And>g s g' r. (g', r) \<in> set (m (g, s)) \<Longrightarrow> length g' = length g + k) \<Longrightarrow> adds k m"
  unfolding adds_def by blast

lemma adds_lit: "adds 0 (lit l)"
  by (simp add: adds_def)

lemma adds_one: "adds 0 (one p)"
proof -
  have "(g', r) \<in> set (one p (g, s)) \<Longrightarrow> g' = g" for g' r g s
    by (cases s) (auto split: if_splits)
  then show ?thesis by (auto simp: adds_def)
qed

lemma adds_greedy: "adds 0 (greedy lo p)"
  by (auto simp: adds_def)

lemma adds_lazy: "adds 0 (lazy lo p)"
  by (auto simp: adds_def)

lemma adds_seq: "adds 0 m1 \<Longrightarrow> adds k m2 \<Longrightarrow> adds k (seq m1 m2)"
  by (fastforce simp: adds_def seq_def)

lemma adds_opt: "adds 0 m \<Longrightarrow> adds 0 (opt m)"
  by (auto simp: adds_def opt_def)

lemma adds_alt: "adds k m1 \<Longrightarrow> adds k m2 \<Longrightarrow> adds k (alt m1 m2)"
  by (rule addsI) (auto simp: alt_def dest: addsD)

lemma adds_group: "adds 0 m \<Longrightarrow> adds (Suc 0) (group m)"
  by (fastforce simp: adds_def)

lemma adds_seqs_Nil: "adds 0 (seqs [])"
  by (simp add: adds_def)

lemma adds_seqs_Cons0: "adds 0 m \<Longrightarrow> adds k (seqs ms) \<Longrightarrow> adds k (seqs (m # ms))"
  by (fastforce simp: adds_def)

lemma adds_seqs_Cons1: "adds (Suc 0) m \<Longrightarrow> adds k (seqs ms) \<Longrightarrow> adds (Suc k) (seqs (m # ms))"
  by (fastforce simp: adds_def)

lemma adds_eos: "adds 0 eos"
  by (auto simp: adds_def split: if_splits)

lemma adds_eol: "adds 0 eol"
proof -
  have "(g', r) \<in> set (eol (g, s)) \<Longrightarrow> g' = g" for g' r g s
    by (cases s) (auto split: if_splits)
  then show ?thesis by (auto simp: adds_def)
qed

lemmas adds_rules = adds_seqs_Nil adds_seqs_Cons0 adds_seqs_Cons1 adds_lit adds_one adds_greedy
  adds_lazy adds_seq adds_opt adds_alt adds_group adds_eos adds_eol

lemma adds_register_pattern: "adds (Suc (Suc 0)) register_pattern"
  unfolding register_pattern_def by (rule adds_rules)+

lemma adds_first: "adds k m \<Longrightarrow> m ([], s) = (g, r) # others \<Longrightarrow> length g = k"
  using addsD [of k m g r "[]" s] by simp

lemma search_at_groups:
  "adds k m \<Longrightarrow> search_at bol m prev i s = Some (j, (g, r)) \<Longrightarrow> length g = k"
  by (induction s arbitrary: prev i) (auto split: if_splits list.splits dest: adds_first)

lemma finditer_groups:
  "adds k m \<Longrightarrow> (g, r) \<in> set (finditer m s) \<Longrightarrow> length g = k"
proof (induction m s rule: finditer.induct)
  case (1 m s)
  show ?case
  proof (cases "re_search False m s")
    case None
    with "1.prems" show ?thesis by (simp add: finditer.simps)
  next
    case (Some found)
    obtain i g0 r0 where found: "found = (i, (g0, r0))" by (cases found) auto
    from Some found have g0: "length g0 = k"
      using search_at_groups [OF "1.prems"(1)] by (simp add: re_search_def)
    show ?thesis
    proof (cases "(g, r) = (g0, r0)")
      case True
      with g0 show ?thesis by simp
    next
      case False
      with "1.prems"(2) Some found have "length r0 < length s" "(g, r) \<in> set (finditer m r0)"
        by (auto simp: finditer.simps [of m s] split: if_splits)
      with "1.IH" [OF Some _ _ this(1) "1.prems"(1)] found show ?thesis by simp
    qed
  qed
qed

lemma collect_tools_total:
  "\<forall>st\<in>set sts. length (fst st) = 2 \<Longrightarrow>
     collect_tools sts = Inr (map (\<lambda>st. (fst st ! 0, py_replace [92, 110] [nl] (strip (fst st ! 1)))) sts)"
  by (induction sts) (auto simp: tool_of_match_def item_def)

lemma parse_content_total:
  "parse_content content
     = Inr (map (\<lambda>st. (fst st ! 0, py_replace [92, 110] [nl] (strip (fst st ! 1))))
              (finditer register_pattern content))"
  unfolding parse_content_def
  by (rule collect_tools_total) (auto dest: finditer_groups [OF adds_register_pattern])

lemma registration_nonempty:
  "registration ws1 q1 name q2 ws2 ws3 ws4 q3 description q4 \<noteq> []"
  by (simp add: registration_def ascii_def)

lemma finditer_registration:
  assumes "heads register_pattern ([], stmt @ rest) (g, rest)" "stmt \<noteq> []"
  shows "finditer register_pattern (stmt @ rest) = (g, rest) # finditer register_pattern rest"
proof -
  obtain c cs where c: "stmt @ rest = c # cs"
    using assms(2) by (cases "stmt @ rest") auto
  from assms(1) obtain others where "register_pattern ([], c # cs) = (g, rest) # others"
    by (auto simp: heads_def c)
  then have "re_search False register_pattern (stmt @ rest) = Some (0, (g, rest))"
    by (simp add: re_search_def c)
  moreover have "length rest < length (stmt @ rest)"
    using assms(2) by simp
  ultimately show ?thesis
    by (simp add: finditer.simps [of register_pattern "stmt @ rest"])
qed

lemma parse_content_registration:
  assumes "\<forall>c\<in>set ws1. is_space c" "\<forall>c\<in>set ws2. is_space c"
      "\<forall>c\<in>set ws3. is_space c" "\<forall>c\<in>set ws4. is_space c"
    and "is_quote q1" "is_quote q2" "is_tick q3" "is_tick q4"
    and "name \<noteq> []" "\<forall>c\<in>set name. \<not> is_quote c"
    and "\<forall>c\<in>set description. \<not> is_tick c"
  shows "\<exists>tools. parse_content rest = Inr tools
      \<and> parse_content (registration ws1 q1 name q2 ws2 ws3 ws4 q3 description q4 @ rest)
          = Inr ((name, normalized description) # tools)"
proof -
  have "finditer register_pattern (registration ws1 q1 name q2 ws2 ws3 ws4 q3 description q4 @ rest)
      = ([name, description], rest) # finditer register_pattern rest"
    using register_pattern_heads [OF assms] registration_nonempty by (rule finditer_registration)
  then show ?thesis
    by (simp add: parse_content_total normalized_def)
qed





section \<open>The extractor run\<close>

text \<open>
  C2, as the specification states it, fails: when \<open>src/index.ts\<close> does not exist,
  \<open>main\<close> prints its message and returns, and the script ends with exit status 0.
\<close>

theorem extractor_main_missing_index_counterexample:
  "\<not> path_exists (empty_fs :: str fsys) index_path
   \<and> \<not> exit_status (fst (extractor_main empty_fs)) \<noteq> 0"
  by (simp add: extractor_main_def path_exists_def empty_fs_def exit_status_def Let_def)

text \<open>
  C2, amended. For every file system in which \<open>src/index.ts\<close> does not exist, the run
  stops at once after printing that it could not find the file; it returns normally, so
  the exit status is 0, and the file system is what it was: no sidecar document is
  created or modified.
\<close>

theorem extractor_main_missing_index:
  "\<not> path_exists w index_path \<Longrightarrow>
     extractor_main w =
       (None, \<lparr>fs = w, printed = [Extracting, CouldNotFind index_path], generated_count = 0\<rparr>)
     \<and> exit_status (fst (extractor_main w)) = 0"
  by (simp add: extractor_main_def exit_status_def Let_def say_def)

theorem extractor_main_missing_index_witness:
  "\<not> path_exists (empty_fs :: str fsys) index_path
   \<and> extractor_main empty_fs =
       (None, \<lparr>fs = empty_fs, printed = [Extracting, CouldNotFind index_path],
               generated_count = 0\<rparr>)
   \<and> exit_status (fst (extractor_main empty_fs)) = 0"
proof -
  have "\<not> path_exists (empty_fs :: str fsys) index_path"
    by (simp add: path_exists_def empty_fs_def)
  with extractor_main_missing_index [of empty_fs] show ?thesis by blast
qed


subsection \<open>Running the extractor again\<close>

lemma extends_refl: "extends w w"
  by (simp add: extends_def)

lemma extends_trans: "extends a b \<Longrightarrow> extends b c \<Longrightarrow> extends a c"
  by (auto simp: extends_def)

lemma extends_exists: "extends a b \<Longrightarrow> path_exists a p \<Longrightarrow> path_exists b p"
  by (auto simp: extends_def path_exists_def)

lemma write_file_extends:
  "write_file w p c = Inr w' \<Longrightarrow> \<not> path_exists w p \<Longrightarrow> extends w w' \<and> path_exists w' p"
  by (auto simp: write_file_def extends_def path_exists_def split: if_splits)

lemma generate_tools_Cons:
  "generate_tools d ((n, desc) # tools) g =
     (if path_exists (fs g) (md_path_of d (filename_of n))
      then generate_tools d tools (say (AlreadyExists (filename_of n)) g)
      else if \<not> dir_ok (fs g) d \<or> \<not> writable (fs g) (md_path_of d (filename_of n))
      then (Some PermissionError, g)
      else generate_tools d tools
             (say (GeneratedFile (filename_of n))
                (g\<lparr>fs := (fs g)\<lparr>files := (files (fs g))(md_path_of d (filename_of n) \<mapsto>
                                                      format_markdown n desc)\<rparr>,
                   generated_count := generated_count g + 1\<rparr>)))"
  by (simp add: get_tool_filename_total makedirs_def write_file_def)

declare generate_tools.simps(2) [simp del]

lemma extends_update:
  "\<not> path_exists w p \<Longrightarrow> extends w (w\<lparr>files := (files w)(p \<mapsto> c)\<rparr>)"
  by (auto simp: extends_def path_exists_def)

lemma generate_tools_extends:
  "generate_tools d tools g = (r, g') \<Longrightarrow> extends (fs g) (fs g')"
proof (induction tools arbitrary: g)
  case Nil
  then show ?case by (simp add: extends_refl)
next
  case (Cons t tools)
  obtain n desc where t: "t = (n, desc)" by (cases t)
  let ?p = "md_path_of d (filename_of n)"
  show ?case
  proof (cases "path_exists (fs g) ?p")
    case True
    with Cons.prems t have "generate_tools d tools (say (AlreadyExists (filename_of n)) g) = (r, g')"
      by (simp add: generate_tools_Cons)
    from Cons.IH [OF this] show ?thesis by (simp add: say_def)
  next
    case False
    show ?thesis
    proof (cases "\<not> dir_ok (fs g) d \<or> \<not> writable (fs g) ?p")
      case True
      with Cons.prems t False show ?thesis
        by (auto simp: generate_tools_Cons extends_refl)
    next
      case ok: False
      let ?w = "(fs g)\<lparr>files := (files (fs g))(?p \<mapsto> format_markdown n desc)\<rparr>"
      from Cons.prems t False ok
      have "generate_tools d tools (say (GeneratedFile (filename_of n))
                (g\<lparr>fs := ?w, generated_count := generated_count g + 1\<rparr>)) = (r, g')"
        by (simp add: generate_tools_Cons)
      from Cons.IH [OF this] have "extends ?w (fs g')" by (simp add: say_def)
      with extends_update [OF False] show ?thesis by (rule extends_trans)
    qed
  qed
qed

lemma generate_tools_exists:
  "generate_tools d tools g = (None, g') \<Longrightarrow> (n, desc) \<in> set tools \<Longrightarrow>
     path_exists (fs g') (md_path_of d (filename_of n))"
proof (induction tools arbitrary: g)
  case Nil
  then show ?case by simp
next
  case (Cons t tools)
  obtain m mdesc where t: "t = (m, mdesc)" by (cases t)
  let ?p = "md_path_of d (filename_of m)"
  let ?w = "(fs g)\<lparr>files := (files (fs g))(?p \<mapsto> format_markdown m mdesc)\<rparr>"
  let ?g1 = "if path_exists (fs g) ?p then say (AlreadyExists (filename_of m)) g
             else say (GeneratedFile (filename_of m))
                    (g\<lparr>fs := ?w, generated_count := generated_count g + 1\<rparr>)"
  from Cons.prems(1) t have rest: "generate_tools d tools ?g1 = (None, g')"
    by (auto simp: generate_tools_Cons split: if_splits)
  have here: "path_exists (fs ?g1) ?p"
    by (simp add: say_def path_exists_def)
  show ?case
  proof (cases "(n, desc) \<in> set tools")
    case True
    from Cons.IH [OF rest True] show ?thesis .
  next
    case False
    with Cons.prems(2) t have "n = m" by simp
    with here extends_exists [OF generate_tools_extends [OF rest]] show ?thesis by blast
  qed
qed

lemma generate_tools_again:
  "generate_tools d tools g = (r, g') \<Longrightarrow> extends (fs g') (fs h) \<Longrightarrow>
   (r \<noteq> None \<longrightarrow> fs h = fs g') \<Longrightarrow>
     \<exists>evs. generate_tools d tools h = (r, h\<lparr>printed := printed h @ evs\<rparr>)
       \<and> (\<forall>fn. GeneratedFile fn \<notin> set evs) \<and> (r = None \<longrightarrow> evs = skips tools)"
proof (induction tools arbitrary: g h)
  case Nil
  then show ?case by (simp add: skips_def)
next
  case (Cons t tools)
  obtain n desc where t: "t = (n, desc)" by (cases t)
  let ?p = "md_path_of d (filename_of n)"
  let ?w = "(fs g)\<lparr>files := (files (fs g))(?p \<mapsto> format_markdown n desc)\<rparr>"
  let ?g1 = "if path_exists (fs g) ?p then say (AlreadyExists (filename_of n)) g
             else say (GeneratedFile (filename_of n))
                    (g\<lparr>fs := ?w, generated_count := generated_count g + 1\<rparr>)"
  let ?h1 = "say (AlreadyExists (filename_of n)) h"
  show ?case
  proof (cases "\<not> path_exists (fs g) ?p \<and> (\<not> dir_ok (fs g) d \<or> \<not> writable (fs g) ?p)")
    case True
    with Cons.prems(1) t have r: "r = Some PermissionError" "g' = g"
      by (auto simp: generate_tools_Cons)
    with Cons.prems(3) have "fs h = fs g" by simp
    with True t r have "generate_tools d (t # tools) h = (r, h\<lparr>printed := printed h @ []\<rparr>)"
      by (auto simp: generate_tools_Cons)
    with r show ?thesis
      by (intro exI [of _ "[]"]) simp
  next
    case False
    with Cons.prems(1) t have rest: "generate_tools d tools ?g1 = (r, g')"
      by (auto simp: generate_tools_Cons split: if_splits)
    have "path_exists (fs ?g1) ?p"
      by (simp add: say_def path_exists_def)
    with extends_exists [OF generate_tools_extends [OF rest]] have "path_exists (fs g') ?p"
      by blast
    with extends_exists [OF Cons.prems(2)] have ex: "path_exists (fs h) ?p"
      by blast
    have "extends (fs g') (fs ?h1)" "r \<noteq> None \<longrightarrow> fs ?h1 = fs g'"
      using Cons.prems(2,3) by (simp_all add: say_def)
    from Cons.IH [OF rest this] obtain evs where
      evs: "generate_tools d tools ?h1 = (r, ?h1\<lparr>printed := printed ?h1 @ evs\<rparr>)"
        "\<forall>fn. GeneratedFile fn \<notin> set evs" "r = None \<longrightarrow> evs = skips tools"
      by blast
    have "generate_tools d (t # tools) h
            = (r, h\<lparr>printed := printed h @ (AlreadyExists (filename_of n) # evs)\<rparr>)"
      using ex evs(1) t by (simp add: generate_tools_Cons say_def)
    with evs(2,3) t show ?thesis
      by (auto simp: skips_def)
  qed
qed

lemma generate_categories_Cons:
  "generate_categories bc (c # cs) g =
     (case map_of bc c of
        None \<Rightarrow> (Some KeyError, g)
      | Some ts \<Rightarrow>
          (case generate_tools (ascii ''src/tools/'' @ c) ts (say (CategoryHeader c (length ts)) g) of
             (Some e, g') \<Rightarrow> (Some e, g')
           | (None, g') \<Rightarrow> generate_categories bc cs g'))"
  by simp

declare generate_categories.simps(2) [simp del]

lemma generate_categories_extends:
  "generate_categories bc cs g = (r, g') \<Longrightarrow> extends (fs g) (fs g')"
proof (induction cs arbitrary: g)
  case Nil
  then show ?case by (simp add: extends_refl)
next
  case (Cons c cs)
  show ?case
  proof (cases "map_of bc c")
    case None
    with Cons.prems show ?thesis by (simp add: generate_categories_Cons extends_refl)
  next
    case (Some ts)
    obtain rt gt where gt: "generate_tools (ascii ''src/tools/'' @ c) ts
        (say (CategoryHeader c (length ts)) g) = (rt, gt)"
      by (cases "generate_tools (ascii ''src/tools/'' @ c) ts (say (CategoryHeader c (length ts)) g)")
    from generate_tools_extends [OF gt] have e1: "extends (fs g) (fs gt)"
      by (simp add: say_def)
    show ?thesis
    proof (cases rt)
      case None
      with Cons.prems Some gt have "generate_categories bc cs gt = (r, g')"
        by (simp add: generate_categories_Cons)
      from extends_trans [OF e1 Cons.IH [OF this]] show ?thesis .
    next
      case (Some e)
      with Cons.prems \<open>map_of bc c = Some ts\<close> gt have "g' = gt"
        by (simp add: generate_categories_Cons)
      with e1 show ?thesis by simp
    qed
  qed
qed

lemma generate_categories_exists:
  "generate_categories bc cs g = (None, g') \<Longrightarrow> c \<in> set cs \<Longrightarrow> map_of bc c = Some ts \<Longrightarrow>
   (n, desc) \<in> set ts \<Longrightarrow>
     path_exists (fs g') (md_path_of (ascii ''src/tools/'' @ c) (filename_of n))"
proof (induction cs arbitrary: g)
  case Nil
  then show ?case by simp
next
  case (Cons k cs)
  obtain ks where ks: "map_of bc k = Some ks"
    using Cons.prems(1) by (cases "map_of bc k") (simp_all add: generate_categories_Cons)
  obtain rt gt where gt: "generate_tools (ascii ''src/tools/'' @ k) ks
        (say (CategoryHeader k (length ks)) g) = (rt, gt)"
    by (cases "generate_tools (ascii ''src/tools/'' @ k) ks (say (CategoryHeader k (length ks)) g)")
  from Cons.prems(1) ks gt have rt: "rt = None" and rest: "generate_categories bc cs gt = (None, g')"
    by (cases rt; simp add: generate_categories_Cons)+
  show ?case
  proof (cases "c \<in> set cs")
    case True
    from Cons.IH [OF rest True Cons.prems(3,4)] show ?thesis .
  next
    case False
    with Cons.prems(2) have "c = k" by simp
    with ks Cons.prems(3) have "ts = ks" by simp
    with gt rt \<open>c = k\<close> Cons.prems(4)
    have "path_exists (fs gt) (md_path_of (ascii ''src/tools/'' @ c) (filename_of n))"
      using generate_tools_exists by blast
    with extends_exists [OF generate_categories_extends [OF rest]] show ?thesis by blast
  qed
qed

lemma generate_categories_again:
  "generate_categories bc cs g = (r, g') \<Longrightarrow> extends (fs g') (fs h) \<Longrightarrow>
   (r \<noteq> None \<longrightarrow> fs h = fs g') \<Longrightarrow>
     \<exists>evs. generate_categories bc cs h = (r, h\<lparr>printed := printed h @ evs\<rparr>)
       \<and> (\<forall>fn. GeneratedFile fn \<notin> set evs)
       \<and> (r = None \<longrightarrow> (\<forall>c\<in>set cs. \<forall>ts. map_of bc c = Some ts \<longrightarrow> set (skips ts) \<subseteq> set evs))"
proof (induction cs arbitrary: g h)
  case Nil
  then have "generate_categories bc [] h = (r, h\<lparr>printed := printed h @ []\<rparr>)"
    by simp
  then show ?case
    by (intro exI [of _ "[]"]) simp
next
  case (Cons k cs)
  show ?case
  proof (cases "map_of bc k")
    case None
    with Cons.prems(1) have "r = Some KeyError"
      by (simp add: generate_categories_Cons)
    with None have "generate_categories bc (k # cs) h = (r, h\<lparr>printed := printed h @ []\<rparr>)"
      by (simp add: generate_categories_Cons)
    with \<open>r = Some KeyError\<close> show ?thesis
      by (intro exI [of _ "[]"]) simp
  next
    case (Some ks)
    let ?d = "ascii ''src/tools/'' @ k"
    let ?h1 = "say (CategoryHeader k (length ks)) h"
    obtain rt gt where gt: "generate_tools ?d ks (say (CategoryHeader k (length ks)) g) = (rt, gt)"
      by (cases "generate_tools ?d ks (say (CategoryHeader k (length ks)) g)")
    show ?thesis
    proof (cases rt)
      case (Some e)
      with Cons.prems(1) \<open>map_of bc k = Some ks\<close> gt have r: "r = Some e" "g' = gt"
        by (simp_all add: generate_categories_Cons)
      with Cons.prems(2,3) Some have "extends (fs gt) (fs ?h1)" "rt \<noteq> None \<longrightarrow> fs ?h1 = fs gt"
        by (simp_all add: say_def)
      from generate_tools_again [OF gt this] obtain evs where
        evs: "generate_tools ?d ks ?h1 = (rt, ?h1\<lparr>printed := printed ?h1 @ evs\<rparr>)"
          "\<forall>fn. GeneratedFile fn \<notin> set evs"
        by blast
      have "generate_categories bc (k # cs) h
              = (r, h\<lparr>printed := printed h @ (CategoryHeader k (length ks) # evs)\<rparr>)"
        using evs(1) Some r \<open>map_of bc k = Some ks\<close>
        by (simp add: generate_categories_Cons say_def)
      with evs(2) r show ?thesis
        by (intro exI [of _ "CategoryHeader k (length ks) # evs"]) simp
    next
      case None
      with Cons.prems(1) \<open>map_of bc k = Some ks\<close> gt
      have rest: "generate_categories bc cs gt = (r, g')"
        by (simp add: generate_categories_Cons)
      have "extends (fs gt) (fs ?h1)"
        using extends_trans [OF generate_categories_extends [OF rest] Cons.prems(2)]
        by (simp add: say_def)
      moreover have "rt \<noteq> None \<longrightarrow> fs ?h1 = fs gt"
        using None by simp
      ultimately obtain evs1 where
        evs1: "generate_tools ?d ks ?h1 = (rt, ?h1\<lparr>printed := printed ?h1 @ evs1\<rparr>)"
          "\<forall>fn. GeneratedFile fn \<notin> set evs1" "evs1 = skips ks"
        using generate_tools_again [OF gt] None by blast
      let ?h2 = "?h1\<lparr>printed := printed ?h1 @ evs1\<rparr>"
      have "extends (fs g') (fs ?h2)" "r \<noteq> None \<longrightarrow> fs ?h2 = fs g'"
        using Cons.prems(2,3) by (simp_all add: say_def)
      from Cons.IH [OF rest this] obtain evs2 where
        evs2: "generate_categories bc cs ?h2 = (r, ?h2\<lparr>printed := printed ?h2 @ evs2\<rparr>)"
          "\<forall>fn. GeneratedFile fn \<notin> set evs2"
          "r = None \<longrightarrow> (\<forall>c\<in>set cs. \<forall>ts. map_of bc c = Some ts \<longrightarrow> set (skips ts) \<subseteq> set evs2)"
        by blast
      let ?evs = "CategoryHeader k (length ks) # evs1 @ evs2"
      have "generate_categories bc (k # cs) h = (r, h\<lparr>printed := printed h @ ?evs\<rparr>)"
        using evs1(1) evs2(1) None \<open>map_of bc k = Some ks\<close>
        by (simp add: generate_categories_Cons say_def)
      moreover have "\<forall>fn. GeneratedFile fn \<notin> set ?evs"
        using evs1(2) evs2(2) by simp
      moreover have "r = None \<longrightarrow>
          (\<forall>c\<in>set (k # cs). \<forall>ts. map_of bc c = Some ts \<longrightarrow> set (skips ts) \<subseteq> set ?evs)"
        using evs1(3) evs2(3) \<open>map_of bc k = Some ks\<close> by auto
      ultimately show ?thesis by blast
    qed
  qed
qed

lemma map_of_map_append:
  "map_of (map (\<lambda>(k, ts). if k = c then (k, ts @ [t]) else (k, ts)) d) c'
     = map_option (\<lambda>ts. if c' = c then ts @ [t] else ts) (map_of d c')"
  by (induction d) auto

lemma map_of_dict_append:
  "map_of (dict_append c t d) c'
     = (if c' = c then Some ((case map_of d c of None \<Rightarrow> [] | Some ts \<Rightarrow> ts) @ [t])
        else map_of d c')"
proof (cases "c \<in> set (map fst d)")
  case True
  then obtain ts where "map_of d c = Some ts"
    by (metis map_of_eq_None_iff not_None_eq set_map)
  with True show ?thesis
    by (auto simp: dict_append_def map_of_map_append option.map_ident)
next
  case False
  then have none: "map_of d c = None"
    by (simp add: map_of_eq_None_iff)
  have "map_of (d @ [(c, [])]) c' = (if c' = c then Some [] else map_of d c')"
    using none by (cases "map_of d c'") (auto simp: map_add_def)
  then have "map_of (map (\<lambda>(k, ts). if k = c then (k, ts @ [t]) else (k, ts)) (d @ [(c, [])])) c'
      = (if c' = c then Some [t] else map_of d c')"
    unfolding map_of_map_append by (simp add: option.map_ident)
  with False none show ?thesis
    by (simp add: dict_append_def del: map_append)
qed

lemma group_tools_grows:
  "group_tools tools bc0 = Inr bc \<Longrightarrow> map_of bc0 c = Some ts0 \<Longrightarrow>
     \<exists>ts. map_of bc c = Some ts \<and> set ts0 \<subseteq> set ts"
proof (induction tools arbitrary: bc0 ts0)
  case Nil
  then show ?case by simp
next
  case (Cons t tools)
  obtain n desc where t: "t = (n, desc)" by (cases t)
  from Cons.prems(1) t
  have rest: "group_tools tools (dict_append (category_of n) (n, desc) bc0) = Inr bc"
    by (simp add: get_tool_category_total)
  have "\<exists>ts1. map_of (dict_append (category_of n) (n, desc) bc0) c = Some ts1 \<and> set ts0 \<subseteq> set ts1"
    using Cons.prems(2) by (auto simp: map_of_dict_append)
  then obtain ts1 where "map_of (dict_append (category_of n) (n, desc) bc0) c = Some ts1"
      "set ts0 \<subseteq> set ts1"
    by blast
  with Cons.IH [OF rest this(1)] show ?case by blast
qed

lemma group_tools_member:
  "group_tools tools bc0 = Inr bc \<Longrightarrow> (n, desc) \<in> set tools \<Longrightarrow>
     \<exists>ts. map_of bc (category_of n) = Some ts \<and> (n, desc) \<in> set ts"
proof (induction tools arbitrary: bc0)
  case Nil
  then show ?case by simp
next
  case (Cons t tools)
  obtain m mdesc where t: "t = (m, mdesc)" by (cases t)
  from Cons.prems(1) t
  have rest: "group_tools tools (dict_append (category_of m) (m, mdesc) bc0) = Inr bc"
    by (simp add: get_tool_category_total)
  show ?case
  proof (cases "(n, desc) \<in> set tools")
    case True
    from Cons.IH [OF rest True] show ?thesis .
  next
    case False
    with Cons.prems(2) t have eq: "n = m" "desc = mdesc" by simp_all
    have "\<exists>ts1. map_of (dict_append (category_of m) (m, mdesc) bc0) (category_of m) = Some ts1
            \<and> (m, mdesc) \<in> set ts1"
      by (simp add: map_of_dict_append)
    then obtain ts1 where ts1: "map_of (dict_append (category_of m) (m, mdesc) bc0) (category_of m) = Some ts1"
        "(m, mdesc) \<in> set ts1"
      by blast
    from group_tools_grows [OF rest ts1(1)] ts1(2) eq show ?thesis by blast
  qed
qed

lemma extends_read: "extends w w' \<Longrightarrow> path_exists w p \<Longrightarrow> read_file w' p = read_file w p"
  by (auto simp: extends_def path_exists_def read_file_def)

text \<open>What a run does once the index exists and has been parsed and grouped.\<close>

lemma extractor_main_generates:
  assumes "path_exists w index_path" "parse_index_ts w index_path = Inr tools"
    "group_tools tools [] = Inr bc"
    "generate_categories bc (sort (map fst bc))
       \<lparr>fs = w, printed = [Extracting, Found (length tools)], generated_count = 0\<rparr> = (r, g')"
  shows "extractor_main w =
           (r, if r = None
               then say (Summary (generated_count g') (length tools) (sort (map fst bc))) g'
               else g')"
  using assms by (cases r) (simp_all add: extractor_main_def Let_def say_def)

lemma extractor_main_again:
  assumes run1: "extractor_main w = (r1, g1)" and run2: "extractor_main (fs g1) = (r2, g2)"
  shows "r2 = r1 \<and> fs g2 = fs g1 \<and> generated_count g2 = 0
         \<and> (\<forall>fn. GeneratedFile fn \<notin> set (printed g2))
         \<and> (\<forall>tools. r1 = None \<and> parse_index_ts w index_path = Inr tools \<longrightarrow>
              (\<forall>(n, desc)\<in>set tools. path_exists (fs g1) (sidecar_path n)
                   \<and> AlreadyExists (filename_of n) \<in> set (printed g2)))"
proof (cases "path_exists w index_path")
  case False
  with run1 have g1: "r1 = None" "g1 = \<lparr>fs = w, printed = [Extracting, CouldNotFind index_path], generated_count = 0\<rparr>"
    by (simp_all add: extractor_main_def Let_def say_def)
  with run2 False have "r2 = None" "g2 = g1"
    by (simp_all add: extractor_main_def Let_def say_def)
  moreover have "parse_index_ts w index_path = Inl FileNotFoundError"
    using False by (simp add: parse_index_ts_def read_file_def path_exists_def)
  ultimately show ?thesis using g1 by simp
next
  case True
  show ?thesis
  proof (cases "parse_index_ts w index_path")
    case (Inl e)
    with run1 True have g1: "r1 = Some e" "g1 = \<lparr>fs = w, printed = [Extracting], generated_count = 0\<rparr>"
      by (simp_all add: extractor_main_def Let_def)
    with run2 True Inl have "r2 = Some e" "g2 = g1"
      by (simp_all add: extractor_main_def Let_def)
    with g1 show ?thesis by simp
  next
    case (Inr tools)
    let ?g0 = "\<lambda>w. \<lparr>fs = w, printed = [Extracting, Found (length tools)], generated_count = 0\<rparr>"
    have "\<exists>bc. group_tools tools [] = Inr bc"
    proof (cases "group_tools tools []")
      case (Inl e)
      have "\<And>bc0. group_tools tools bc0 \<noteq> Inl e"
        by (induction tools) (auto simp: get_tool_category_total)
      with Inl show ?thesis by blast
    next
      case (Inr bc)
      then show ?thesis by blast
    qed
    then obtain bc where bc: "group_tools tools [] = Inr bc" by blast
    obtain r g' where gen: "generate_categories bc (sort (map fst bc)) (?g0 w) = (r, g')"
      by (cases "generate_categories bc (sort (map fst bc)) (?g0 w)")
    from extractor_main_generates [OF True Inr bc gen] run1
    have r1: "r1 = r" and g1: "g1 = (if r = None
               then say (Summary (generated_count g') (length tools) (sort (map fst bc))) g'
               else g')"
      by simp_all
    then have fs1: "fs g1 = fs g'" by (simp add: say_def)
    have ext: "extends w (fs g')"
      using generate_categories_extends [OF gen] by simp
    have ex2: "path_exists (fs g1) index_path"
      using extends_exists [OF ext True] fs1 by simp
    have parse2: "parse_index_ts (fs g1) index_path = Inr tools"
      using Inr extends_read [OF ext True] fs1 by (simp add: parse_index_ts_def)
    have "extends (fs g') (fs (?g0 (fs g1)))" "r \<noteq> None \<longrightarrow> fs (?g0 (fs g1)) = fs g'"
      using fs1 by (simp_all add: extends_refl)
    from generate_categories_again [OF gen this] obtain evs where
      evs: "generate_categories bc (sort (map fst bc)) (?g0 (fs g1))
              = (r, (?g0 (fs g1))\<lparr>printed := printed (?g0 (fs g1)) @ evs\<rparr>)"
        "\<forall>fn. GeneratedFile fn \<notin> set evs"
        "r = None \<longrightarrow> (\<forall>c\<in>set (sort (map fst bc)). \<forall>ts. map_of bc c = Some ts \<longrightarrow> set (skips ts) \<subseteq> set evs)"
      by blast
    let ?h' = "(?g0 (fs g1))\<lparr>printed := printed (?g0 (fs g1)) @ evs\<rparr>"
    from extractor_main_generates [OF ex2 parse2 bc evs(1)] run2
    have r2: "r2 = r" and g2: "g2 = (if r = None
               then say (Summary (generated_count ?h') (length tools) (sort (map fst bc))) ?h'
               else ?h')"
      by simp_all
    have a: "r2 = r1" using r1 r2 by simp
    have b: "fs g2 = fs g1" using g2 by (simp add: say_def)
    have c: "generated_count g2 = 0" using g2 by (simp add: say_def)
    have d: "\<forall>fn. GeneratedFile fn \<notin> set (printed g2)"
      using g2 evs(2) by (simp add: say_def)
    have e: "path_exists (fs g1) (sidecar_path n) \<and> AlreadyExists (filename_of n) \<in> set (printed g2)"
      if "r1 = None" "(n, desc) \<in> set tools" for n desc
    proof -
      from group_tools_member [OF bc that(2)] obtain ts where
        ts: "map_of bc (category_of n) = Some ts" "(n, desc) \<in> set ts"
        by blast
      then have mem: "category_of n \<in> set (sort (map fst bc))"
        by (metis map_of_eq_None_iff option.distinct(1) set_map set_sort)
      from that(1) r1 gen have "generate_categories bc (sort (map fst bc)) (?g0 w) = (None, g')"
        by simp
      from generate_categories_exists [OF this mem ts]
      have "path_exists (fs g1) (sidecar_path n)"
        using fs1 by (simp add: sidecar_path_def)
      moreover have "AlreadyExists (filename_of n) \<in> set (skips ts)"
        using ts(2) by (force simp: skips_def)
      then have "AlreadyExists (filename_of n) \<in> set evs"
        using evs(3) that(1) r1 mem ts(1) by blast
      then have "AlreadyExists (filename_of n) \<in> set (printed g2)"
        using g2 by (simp add: say_def)
      ultimately show ?thesis by simp
    qed
    show ?thesis
      using a b c d e Inr by auto
  qed
qed

text \<open>
  C8. For every file system, take a run of the extractor and a second run on the file
  system the first one leaves. The second run ends as the first did, leaves every file
  as it found it, writes nothing (its counter of generated files is 0 and it reports none
  as generated), and, when the first run returned normally, the sidecar path of every
  tool of the index exists before the second run, which reports the tool as existing
  already.
\<close>

theorem extractor_main_twice:
  assumes "extractor_main w = (r1, g1)" and "extractor_main (fs g1) = (r2, g2)"
  shows "r2 = r1 \<and> fs g2 = fs g1 \<and> generated_count g2 = 0
         \<and> (\<forall>fn. GeneratedFile fn \<notin> set (printed g2))
         \<and> (\<forall>tools. r1 = None \<and> parse_index_ts w index_path = Inr tools \<longrightarrow>
              (\<forall>(n, desc)\<in>set tools. path_exists (fs g1) (sidecar_path n)
                   \<and> AlreadyExists (filename_of n) \<in> set (printed g2)))"
  using assms by (rule extractor_main_again)

lemma parse_one_tool_index:
  "parse_content one_tool_index = Inr [(ascii ''simctl-boot'', ascii ''Boot a device'')]"
proof -
  have rest: "parse_content (ascii '','') = Inr []"
    by (simp add: parse_content_total finditer.simps re_search_def register_pattern_def ascii_def)
  have "\<exists>tools. parse_content (ascii '','') = Inr tools
      \<and> parse_content (registration [] 39 (ascii ''simctl-boot'') 39 [32] [32] [32] 96
            (ascii ''Boot a device'') 96 @ ascii '','')
          = Inr ((ascii ''simctl-boot'', normalized (ascii ''Boot a device'')) # tools)"
    by (rule parse_content_registration)
      (simp_all add: is_space_def is_quote_def is_tick_def ascii_def)
  moreover have "normalized (ascii ''Boot a device'') = ascii ''Boot a device''"
    by (simp add: normalized_def strip_def is_space_def ascii_def py_replace.simps)
  ultimately show ?thesis
    using rest by (auto simp: one_tool_index_def)
qed

lemma one_tool_first_run:
  "extractor_main one_tool_fs =
     (None,
      \<lparr>fs = one_tool_fs\<lparr>files := (files one_tool_fs)
              (ascii ''src/tools/simctl/boot.md'' \<mapsto>
                 format_markdown (ascii ''simctl-boot'') (ascii ''Boot a device''))\<rparr>,
       printed = [Extracting, Found 1, CategoryHeader (ascii ''simctl'') 1,
                  GeneratedFile (ascii ''boot''), Summary 1 1 [ascii ''simctl'']],
       generated_count = 1\<rparr>)"
proof -
  have ex: "path_exists one_tool_fs index_path"
    by (simp add: one_tool_fs_def path_exists_def)
  have parse: "parse_index_ts one_tool_fs index_path
      = Inr [(ascii ''simctl-boot'', ascii ''Boot a device'')]"
    by (simp add: parse_index_ts_def read_file_def one_tool_fs_def empty_fs_def
        parse_one_tool_index)
  have cat: "category_of (ascii ''simctl-boot'') = ascii ''simctl''"
    by (simp add: category_of_def first_token_def known_categories_def ascii_def dash_def)
  have fn: "filename_of (ascii ''simctl-boot'') = ascii ''boot''"
    by (simp add: filename_of_def strip_category_prefix_def first_token_def ascii_def dash_def)
  have grp: "group_tools [(ascii ''simctl-boot'', ascii ''Boot a device'')] []
      = Inr [(ascii ''simctl'', [(ascii ''simctl-boot'', ascii ''Boot a device'')])]"
    by (simp add: get_tool_category_total cat dict_append_def)
  have path: "md_path_of (ascii ''src/tools/'' @ ascii ''simctl'') (ascii ''boot'')
      = ascii ''src/tools/simctl/boot.md''"
    by (simp add: md_path_of_def ascii_def)
  have absent: "\<not> path_exists one_tool_fs (ascii ''src/tools/simctl/boot.md'')"
    by (simp add: path_exists_def one_tool_fs_def index_path_def ascii_def)
  have gen: "generate_categories [(ascii ''simctl'', [(ascii ''simctl-boot'', ascii ''Boot a device'')])]
       (sort (map fst [(ascii ''simctl'', [(ascii ''simctl-boot'', ascii ''Boot a device'')])]))
       \<lparr>fs = one_tool_fs, printed = [Extracting, Found (length [(ascii ''simctl-boot'', ascii ''Boot a device'')])],
        generated_count = 0\<rparr>
     = (None,
      \<lparr>fs = one_tool_fs\<lparr>files := (files one_tool_fs)
              (ascii ''src/tools/simctl/boot.md'' \<mapsto>
                 format_markdown (ascii ''simctl-boot'') (ascii ''Boot a device''))\<rparr>,
       printed = [Extracting, Found 1, CategoryHeader (ascii ''simctl'') 1,
                  GeneratedFile (ascii ''boot'')],
       generated_count = 1\<rparr>)"
    using absent
    by (simp add: generate_categories_Cons generate_tools_Cons fn path say_def)
      (simp add: one_tool_fs_def empty_fs_def)
  from extractor_main_generates [OF ex parse grp gen] show ?thesis
    by (simp add: say_def)
qed

theorem extractor_main_twice_witness:
  "extractor_main one_tool_fs = (None, snd (extractor_main one_tool_fs))
   \<and> generated_count (snd (extractor_main one_tool_fs)) = 1
   \<and> parse_index_ts one_tool_fs index_path
       = Inr [(ascii ''simctl-boot'', ascii ''Boot a device'')]
   \<and> fst (extractor_main (fs (snd (extractor_main one_tool_fs)))) = None
   \<and> fs (snd (extractor_main (fs (snd (extractor_main one_tool_fs)))))
       = fs (snd (extractor_main one_tool_fs))
   \<and> generated_count (snd (extractor_main (fs (snd (extractor_main one_tool_fs))))) = 0
   \<and> path_exists (fs (snd (extractor_main one_tool_fs))) (ascii ''src/tools/simctl/boot.md'')
   \<and> AlreadyExists (ascii ''boot'')
       \<in> set (printed (snd (extractor_main (fs (snd (extractor_main one_tool_fs))))))"
proof -
  let ?g1 = "snd (extractor_main one_tool_fs)"
  let ?run2 = "extractor_main (fs ?g1)"
  have run1: "extractor_main one_tool_fs = (None, ?g1)"
    by (simp add: one_tool_first_run)
  have run2: "?run2 = (fst ?run2, snd ?run2)"
    by simp
  have parse: "parse_index_ts one_tool_fs index_path
      = Inr [(ascii ''simctl-boot'', ascii ''Boot a device'')]"
    by (simp add: parse_index_ts_def read_file_def one_tool_fs_def empty_fs_def
        parse_one_tool_index)
  have names: "sidecar_path (ascii ''simctl-boot'') = ascii ''src/tools/simctl/boot.md''"
      "filename_of (ascii ''simctl-boot'') = ascii ''boot''"
    by (simp_all add: sidecar_path_def md_path_of_def category_of_def filename_of_def
        strip_category_prefix_def first_token_def known_categories_def ascii_def dash_def)
  have count: "generated_count ?g1 = 1"
    by (simp add: one_tool_first_run)
  from extractor_main_twice [OF run1 run2] parse names count run1 show ?thesis
    by auto
qed

section \<open>The sidecar loader\<close>

















lemma adds_section_pattern: "adds (Suc 0) (section_pattern H)"
  unfolding section_pattern_def by (rule adds_rules)+

lemma adds_title_pattern: "adds (Suc 0) title_pattern"
  unfolding title_pattern_def by (rule adds_rules)+

lemma adds_para_pattern: "adds (Suc 0) para_pattern"
  unfolding para_pattern_def by (rule adds_rules)+

lemma group1_total:
  assumes "adds (Suc 0) m"
  shows "\<exists>x. group1 (re_search bol m s) = Inr x"
proof (cases "re_search bol m s")
  case None
  then show ?thesis by (simp add: group1_def)
next
  case (Some found)
  obtain i g r where found: "found = (i, (g, r))" by (cases found) auto
  with Some have "length g = Suc 0"
    using search_at_groups [OF assms] by (simp add: re_search_def)
  with Some found show ?thesis
    by (cases g) (simp_all add: group1_def item_def)
qed

lemma md_advantages_total: "\<exists>advs. md_advantages content = Inr advs"
  using group1_total [OF adds_section_pattern, of False "ascii ''## Advantages''" content]
  by (auto simp: md_advantages_def split: option.splits)

lemma md_params_total: "\<exists>params. md_params content = Inr params"
  using group1_total [OF adds_section_pattern, of False "ascii ''## Parameters''" content]
  by (auto simp: md_params_def split: option.splits)

lemma md_fields_total:
  "\<exists>info. md_fields content = Inr info
     \<and> (\<forall>advs. md_advantages content = Inr advs \<and> advs \<noteq> [] \<longrightarrow>
           why_use info = py_join ([nl] @ ascii '' * '') advs)"
proof -
  obtain t where t: "group1 (re_search True title_pattern content) = Inr t"
    using group1_total [OF adds_title_pattern] by blast
  obtain p where p: "group1 (re_search True para_pattern content) = Inr p"
    using group1_total [OF adds_para_pattern] by blast
  obtain a where a: "md_advantages content = Inr a"
    using md_advantages_total by blast
  obtain ps where ps: "md_params content = Inr ps"
    using md_params_total by blast
  show ?thesis
    by (simp add: md_fields_def t p a ps)
qed





section \<open>The comment marker\<close>







section \<open>The injector run\<close>

lemma call2_one: "call2 f [a] = Inl TypeError"
  by (simp add: call2_def)

lemma add_jsdoc_to_file_cases:
  "add_jsdoc_to_file alnum file_path md_path st =
     (case read_file (jfs st) file_path of
        Inl e \<Rightarrow> (Inr False, jsay (CouldNotRead file_path) (log_open file_path st))
      | Inr content \<Rightarrow>
          if jsdoc_exists content
          then (Inr False, jsay (JSDocExists (snd file_path)) (log_open file_path st))
          else (case load_md_content (jfs st) md_path of
                  Inl e \<Rightarrow> (Inl e, log_open md_path (log_open file_path st))
                | Inr None \<Rightarrow>
                    (Inr False,
                     jsay (NoMarkdown (snd file_path)) (log_open md_path (log_open file_path st)))
                | Inr (Some info) \<Rightarrow>
                    (Inl TypeError, log_open md_path (log_open file_path st))))"
  by (simp add: add_jsdoc_to_file_def call2_one Let_def log_open_def
      split: sum.splits option.splits)

lemma load_md_content_readable:
  "read_file w md_path = Inr content \<Longrightarrow> \<exists>info. load_md_content w md_path = Inr (Some info)"
  using md_fields_total [of content] by (auto simp: load_md_content_def)

lemma add_jsdoc_to_file_type_error:
  assumes "read_file (jfs st) file_path = Inr content" "\<not> jsdoc_exists content"
    and "read_file (jfs st) md_path = Inr md_content"
  shows "add_jsdoc_to_file alnum file_path md_path st
           = (Inl TypeError, log_open md_path (log_open file_path st))"
proof -
  obtain info where "load_md_content (jfs st) md_path = Inr (Some info)"
    using load_md_content_readable [OF assms(3)] by blast
  with assms(1,2) show ?thesis
    by (simp add: add_jsdoc_to_file_cases)
qed

lemma add_jsdoc_to_file_frame:
  assumes "add_jsdoc_to_file alnum file_path md_path st = (res, st')"
  shows "jfs st' = jfs st \<and> set (opened st') \<subseteq> set (opened st) \<union> {file_path, md_path}"
  using assms
  by (auto simp: add_jsdoc_to_file_cases log_open_def jsay_def
      split: sum.splits option.splits if_splits)

lemma with_suffix_md_last: "last (with_suffix name (ascii ''.md'')) = 100"
  by (simp add: with_suffix_def ascii_def)

lemma multi_export_last: "name \<in> set multi_export_files \<Longrightarrow> last name = 115"
  by (auto simp: multi_export_files_def ascii_def)

lemma md_file_of_name: "snd (md_file_of w (d, name)) \<notin> set multi_export_files"
proof -
  have "with_suffix name (ascii ''.md'') \<notin> set multi_export_files"
  proof
    assume "with_suffix name (ascii ''.md'') \<in> set multi_export_files"
    then have "last (with_suffix name (ascii ''.md'')) = 115"
      by (rule multi_export_last)
    then show False
      by (simp add: with_suffix_md_last)
  qed
  moreover have "ascii ''test.md'' \<notin> set multi_export_files"
      "ascii ''screenshot-inline.md'' \<notin> set multi_export_files"
    by (simp_all add: multi_export_files_def ascii_def)
  ultimately show ?thesis
    by (simp add: md_file_of_def Let_def)
qed

lemma md_file_of_dir: "fst (md_file_of w (d, name)) = d"
  by (simp add: md_file_of_def Let_def)

lemma inject_files_skip:
  "name \<in> set multi_export_files \<Longrightarrow>
     inject_files alnum d (name # names) st
       = inject_files alnum d names (jsay (MultiExport name) st)"
  by simp

lemma inject_files_raise:
  "name \<notin> set multi_export_files \<Longrightarrow>
   add_jsdoc_to_file alnum (d, name) (md_file_of (jfs st) (d, name))
     (st\<lparr>total_count := total_count st + 1\<rparr>) = (Inl e, st1) \<Longrightarrow>
     inject_files alnum d (name # names) st = (Some e, st1)"
  by simp

lemma inject_files_next:
  "name \<notin> set multi_export_files \<Longrightarrow>
   add_jsdoc_to_file alnum (d, name) (md_file_of (jfs st) (d, name))
     (st\<lparr>total_count := total_count st + 1\<rparr>) = (Inr ok, st1) \<Longrightarrow>
     inject_files alnum d (name # names) st
       = inject_files alnum d names
           (if ok then st1\<lparr>success_count := success_count st1 + 1\<rparr> else st1)"
  by simp

declare inject_files.simps(2) [simp del]

lemma inject_files_frame:
  "inject_files alnum d names st = (r, st') \<Longrightarrow>
     jfs st' = jfs st
     \<and> (\<forall>p\<in>set (opened st'). p \<in> set (opened st) \<or> snd p \<notin> set multi_export_files)"
proof (induction names arbitrary: st)
  case Nil
  then show ?case by simp
next
  case (Cons name names)
  show ?case
  proof (cases "name \<in> set multi_export_files")
    case True
    with Cons.prems have "inject_files alnum d names (jsay (MultiExport name) st) = (r, st')"
      by (simp add: inject_files_skip)
    from Cons.IH [OF this] show ?thesis by (simp add: jsay_def)
  next
    case False
    let ?md = "md_file_of (jfs st) (d, name)"
    obtain res st1 where one: "add_jsdoc_to_file alnum (d, name) ?md
        (st\<lparr>total_count := total_count st + 1\<rparr>) = (res, st1)"
      by (cases "add_jsdoc_to_file alnum (d, name) ?md (st\<lparr>total_count := total_count st + 1\<rparr>)")
    from add_jsdoc_to_file_frame [OF one]
    have f1: "jfs st1 = jfs st" "set (opened st1) \<subseteq> set (opened st) \<union> {(d, name), ?md}"
      by simp_all
    have ok1: "p \<in> set (opened st) \<or> snd p \<notin> set multi_export_files"
      if "p \<in> set (opened st1)" for p
    proof -
      from that f1(2) consider "p \<in> set (opened st)" | "p = (d, name)" | "p = ?md"
        by blast
      then show ?thesis
      proof cases
        case 1
        then show ?thesis by simp
      next
        case 2
        with False show ?thesis by simp
      next
        case 3
        with md_file_of_name [of "jfs st" d name] show ?thesis by simp
      qed
    qed
    show ?thesis
    proof (cases res)
      case (Inl e)
      with one have "inject_files alnum d (name # names) st = (Some e, st1)"
        using inject_files_raise [OF False] by simp
      with Cons.prems have "st' = st1" by simp
      with f1(1) ok1 show ?thesis by blast
    next
      case (Inr ok)
      let ?st2 = "if ok then st1\<lparr>success_count := success_count st1 + 1\<rparr> else st1"
      from one Inr have "inject_files alnum d (name # names) st = inject_files alnum d names ?st2"
        using inject_files_next [OF False] by simp
      with Cons.prems have "inject_files alnum d names ?st2 = (r, st')" by simp
      from Cons.IH [OF this]
      have "jfs st' = jfs ?st2"
          "\<forall>p\<in>set (opened st'). p \<in> set (opened ?st2) \<or> snd p \<notin> set multi_export_files"
        by blast+
      moreover have "jfs ?st2 = jfs st1" "opened ?st2 = opened st1"
        by simp_all
      ultimately show ?thesis
        using f1(1) ok1 by (metis (no_types, lifting))
    qed
  qed
qed

lemma inject_categories_Cons:
  "inject_categories alnum ls (c # cs) st =
     (case inject_files alnum (category_dir_of c) (ls (category_dir_of c))
             (jsay (CategoryLine c (length (ls (category_dir_of c)))) st) of
        (Some e, st') \<Rightarrow> (Some e, st')
      | (None, st') \<Rightarrow> inject_categories alnum ls cs st')"
  by simp

declare inject_categories.simps(2) [simp del]

lemma inject_categories_frame:
  "inject_categories alnum ls cs st = (r, st') \<Longrightarrow>
     jfs st' = jfs st
     \<and> (\<forall>p\<in>set (opened st'). p \<in> set (opened st) \<or> snd p \<notin> set multi_export_files)"
proof (induction cs arbitrary: st)
  case Nil
  then show ?case by simp
next
  case (Cons c cs)
  let ?d = "category_dir_of c"
  obtain r1 st1 where one: "inject_files alnum ?d (ls ?d)
      (jsay (CategoryLine c (length (ls ?d))) st) = (r1, st1)"
    by (cases "inject_files alnum ?d (ls ?d) (jsay (CategoryLine c (length (ls ?d))) st)")
  from inject_files_frame [OF one]
  have f1: "jfs st1 = jfs st"
      "\<forall>p\<in>set (opened st1). p \<in> set (opened st) \<or> snd p \<notin> set multi_export_files"
    by (simp_all add: jsay_def)
  show ?case
  proof (cases r1)
    case (Some e)
    with Cons.prems one have "st' = st1"
      by (simp add: inject_categories_Cons)
    with f1 show ?thesis by simp
  next
    case None
    with Cons.prems one have "inject_categories alnum ls cs st1 = (r, st')"
      by (simp add: inject_categories_Cons)
    from Cons.IH [OF this] f1 show ?thesis by auto
  qed
qed

lemma injector_main_frame:
  assumes "injector_main alnum ls w = (r, st)"
  shows "jfs st = w \<and> (\<forall>p\<in>set (opened st). snd p \<notin> set multi_export_files)"
proof -
  let ?st0 = "\<lparr>jfs = w, jprinted = [Adding], opened = [], total_count = 0, success_count = 0\<rparr>"
  obtain r1 st1 where one: "inject_categories alnum ls injector_categories ?st0 = (r1, st1)"
    by (cases "inject_categories alnum ls injector_categories ?st0")
  from inject_categories_frame [OF one]
  have "jfs st1 = w" "\<forall>p\<in>set (opened st1). snd p \<notin> set multi_export_files"
    by simp_all
  moreover from assms one have "jfs st = jfs st1 \<and> opened st = opened st1"
    by (cases r1) (auto simp: injector_main_def jsay_def)
  ultimately show ?thesis by simp
qed

lemma find_short_export:
  "find_function_export ascii_alnum short_export (ascii ''build'') = Inr (Some (0, short_export))"
  by (simp add: find_function_export_def re_search_def export_pattern_def short_export_def
      seq_def opt_def is_space_def is_word_def ascii_alnum_def not_nl_def nl_def item_def ascii_def)

lemma short_export_no_jsdoc: "\<not> jsdoc_exists short_export"
  by (simp add: jsdoc_exists_def short_export_def ascii_def)

lemma with_suffix_build: "with_suffix (ascii ''build.ts'') (ascii ''.md'') = ascii ''build.md''"
  by (simp add: with_suffix_def stem_def path_suffix_def ascii_def)

lemma names_differ:
  "ascii ''build.ts'' \<noteq> ascii ''build.md''" "ascii ''build.ts'' \<noteq> ascii ''clean.ts''"
  "ascii ''build.ts'' \<noteq> ascii ''clean.md''" "ascii ''build.md'' \<noteq> ascii ''clean.ts''"
  "ascii ''build.md'' \<noteq> ascii ''clean.md''" "ascii ''clean.ts'' \<noteq> ascii ''clean.md''"
  by (simp_all add: ascii_def)

lemma two_tools_read:
  "read_file two_tools_fs (xcodebuild_dir, ascii ''build.ts'') = Inr short_export"
  "read_file two_tools_fs (xcodebuild_dir, ascii ''build.md'') = Inr (ascii ''# build'')"
  "path_exists two_tools_fs (xcodebuild_dir, ascii ''build.md'')"
  using names_differ
  by (simp_all add: read_file_def path_exists_def two_tools_fs_def empty_fs_def)

lemma build_not_multi_export: "ascii ''build.ts'' \<notin> set multi_export_files"
  by (simp add: multi_export_files_def ascii_def)

lemma injector_main_two_tools:
  "injector_main ascii_alnum two_tools_ls two_tools_fs =
     (Some TypeError,
      \<lparr>jfs = two_tools_fs, jprinted = [Adding, CategoryLine (ascii ''xcodebuild'') 2],
       opened = [(xcodebuild_dir, ascii ''build.ts''), (xcodebuild_dir, ascii ''build.md'')],
       total_count = 1, success_count = 0\<rparr>)"
proof -
  let ?st = "\<lparr>jfs = two_tools_fs, jprinted = [Adding, CategoryLine (ascii ''xcodebuild'') 2],
       opened = [], total_count = 0, success_count = 0\<rparr>"
  let ?ts = "(xcodebuild_dir, ascii ''build.ts'')"
  let ?md = "(xcodebuild_dir, ascii ''build.md'')"
  have md: "md_file_of (jfs ?st) ?ts = ?md"
    using two_tools_read(3) by (simp add: md_file_of_def with_suffix_build)
  have "add_jsdoc_to_file ascii_alnum ?ts ?md (?st\<lparr>total_count := total_count ?st + 1\<rparr>)
      = (Inl TypeError, log_open ?md (log_open ?ts (?st\<lparr>total_count := total_count ?st + 1\<rparr>)))"
    by (rule add_jsdoc_to_file_type_error [where content = short_export and md_content = "ascii ''# build''"])
      (simp_all add: two_tools_read short_export_no_jsdoc)
  with md have "inject_files ascii_alnum xcodebuild_dir [ascii ''build.ts'', ascii ''clean.ts''] ?st
      = (Some TypeError, log_open ?md (log_open ?ts (?st\<lparr>total_count := total_count ?st + 1\<rparr>)))"
    by (intro inject_files_raise [OF build_not_multi_export]) simp
  then show ?thesis
    by (simp add: injector_main_def injector_categories_def inject_categories_Cons
        two_tools_ls_def xcodebuild_dir_def [symmetric] jsay_def log_open_def numeral_2_eq_2)
qed

lemma other_dirs:
  "category_dir_of (ascii ''simctl'') \<noteq> xcodebuild_dir"
  "category_dir_of (ascii ''idb'') \<noteq> xcodebuild_dir"
  "category_dir_of (ascii ''cache'') \<noteq> xcodebuild_dir"
  "category_dir_of (ascii ''persistence'') \<noteq> xcodebuild_dir"
  by (simp_all add: xcodebuild_dir_def category_dir_of_def ascii_def)

lemma injector_main_documented:
  "injector_main ascii_alnum documented_ls documented_fs =
     (None,
      \<lparr>jfs = documented_fs,
       jprinted = [Adding, CategoryLine (ascii ''xcodebuild'') 2, JSDocExists (ascii ''build.ts''),
                   MultiExport (ascii ''index.ts''), CategoryLine (ascii ''simctl'') 0,
                   CategoryLine (ascii ''idb'') 0, CategoryLine (ascii ''cache'') 0,
                   CategoryLine (ascii ''persistence'') 0, Tally 0 1],
       opened = [(xcodebuild_dir, ascii ''build.ts'')],
       total_count = 1, success_count = 0\<rparr>)"
proof -
  let ?st = "\<lparr>jfs = documented_fs, jprinted = [Adding, CategoryLine (ascii ''xcodebuild'') 2],
       opened = [], total_count = 0, success_count = 0\<rparr>"
  let ?ts = "(xcodebuild_dir, ascii ''build.ts'')"
  let ?doc = "ascii ''/** Build */'' @ [nl] @ short_export"
  have read: "read_file documented_fs ?ts = Inr ?doc"
    by (simp add: read_file_def documented_fs_def empty_fs_def ascii_def)
  have marker: "jsdoc_exists ?doc"
    by (simp add: jsdoc_exists_def ascii_def)
  have one: "add_jsdoc_to_file ascii_alnum ?ts (md_file_of (jfs ?st) ?ts)
        (?st\<lparr>total_count := total_count ?st + 1\<rparr>)
      = (Inr False, jsay (JSDocExists (ascii ''build.ts''))
           (log_open ?ts (?st\<lparr>total_count := total_count ?st + 1\<rparr>)))"
    using read marker by (simp add: add_jsdoc_to_file_cases)
  have index: "ascii ''index.ts'' \<in> set multi_export_files"
    by (simp add: multi_export_files_def)
  have "inject_files ascii_alnum xcodebuild_dir [ascii ''build.ts'', ascii ''index.ts''] ?st
      = (None, jsay (MultiExport (ascii ''index.ts'')) (jsay (JSDocExists (ascii ''build.ts''))
           (log_open ?ts (?st\<lparr>total_count := total_count ?st + 1\<rparr>))))"
    by (simp add: inject_files_next [OF build_not_multi_export one] inject_files_skip [OF index])
  then show ?thesis
    by (simp add: injector_main_def injector_categories_def inject_categories_Cons
        documented_ls_def other_dirs xcodebuild_dir_def [symmetric] jsay_def log_open_def
        numeral_2_eq_2)
qed


text \<open>
  C10. For every run of the injector, whatever the directories list and whatever the
  files hold, a file named \<open>cache-management.ts\<close>, \<open>persistence-tools.ts\<close> or \<open>index.ts\<close>
  is never opened, for reading or for writing, and its contents after the run are its
  contents before; the loop passes over such a name with the multi-export line and
  nothing else, whatever the state.
\<close>

theorem multi_export_files_untouched:
  assumes "injector_main alnum ls w = (r, st)" and "name \<in> set multi_export_files"
  shows "(d, name) \<notin> set (opened st) \<and> files (jfs st) (d, name) = files w (d, name)
         \<and> inject_files alnum d (name # names) st0
             = inject_files alnum d names (jsay (MultiExport name) st0)"
  using injector_main_frame [OF assms(1)] assms(2) inject_files_skip [OF assms(2)]
  by auto

theorem multi_export_files_untouched_witness:
  "injector_main ascii_alnum documented_ls documented_fs
     = (None, snd (injector_main ascii_alnum documented_ls documented_fs))
   \<and> ascii ''index.ts'' \<in> set multi_export_files
   \<and> MultiExport (ascii ''index.ts'')
       \<in> set (jprinted (snd (injector_main ascii_alnum documented_ls documented_fs)))
   \<and> (xcodebuild_dir, ascii ''index.ts'')
       \<notin> set (opened (snd (injector_main ascii_alnum documented_ls documented_fs)))
   \<and> files (jfs (snd (injector_main ascii_alnum documented_ls documented_fs)))
         (xcodebuild_dir, ascii ''index.ts'')
       = Some (ascii ''export * from build'')"
proof -
  have run: "injector_main ascii_alnum documented_ls documented_fs
     = (None, snd (injector_main ascii_alnum documented_ls documented_fs))"
    by (simp add: injector_main_documented)
  have index: "ascii ''index.ts'' \<in> set multi_export_files"
    by (simp add: multi_export_files_def)
  have before: "files documented_fs (xcodebuild_dir, ascii ''index.ts'')
      = Some (ascii ''export * from build'')"
    by (simp add: documented_fs_def)
  have printed: "MultiExport (ascii ''index.ts'')
       \<in> set (jprinted (snd (injector_main ascii_alnum documented_ls documented_fs)))"
    by (simp add: injector_main_documented)
  from multi_export_files_untouched [OF run index, of xcodebuild_dir] run index before printed
  show ?thesis by simp
qed

section \<open>Splicing and the next pass\<close>






lemma search_at_Some_D:
  "search_at False m prev j s = Some (q, r) \<Longrightarrow>
     \<exists>k. q = j + k \<and> k \<le> length s \<and> heads m ([], drop k s) r"
proof (induction s arbitrary: prev j)
  case Nil
  then show ?case
    by (auto simp: heads_def split: list.splits)
next
  case (Cons c cs)
  show ?case
  proof (cases "m ([], c # cs)")
    case Nil
    with Cons.prems have "search_at False m (Some c) (Suc j) cs = Some (q, r)"
      by simp
    from Cons.IH [OF this] obtain k where
      "q = Suc j + k" "k \<le> length cs" "heads m ([], drop k cs) r"
      by blast
    then have "q = j + Suc k \<and> Suc k \<le> length (c # cs) \<and> heads m ([], drop (Suc k) (c # cs)) r"
      by simp
    then show ?thesis by blast
  next
    case (Cons r0 others)
    with Cons.prems have "q = j" "r = r0"
      by simp_all
    with Cons have "q = j + 0 \<and> 0 \<le> length (c # cs) \<and> heads m ([], drop 0 (c # cs)) r"
      by (simp add: heads_def)
    then show ?thesis by blast
  qed
qed

lemma search_at_finds:
  "heads m ([], drop k s) r \<Longrightarrow> k \<le> length s \<Longrightarrow>
     \<exists>q r'. search_at False m prev j s = Some (q, r')"
proof (induction s arbitrary: k prev j)
  case Nil
  then show ?case
    by (auto simp: heads_def)
next
  case (Cons c cs)
  show ?case
  proof (cases "m ([], c # cs)")
    case Nil
    have "k \<noteq> 0"
    proof
      assume "k = 0"
      with Cons.prems(1) Nil show False
        by (simp add: heads_def)
    qed
    then obtain k' where k: "k = Suc k'" by (cases k) auto
    with Cons.prems have "heads m ([], drop k' cs) r" "k' \<le> length cs"
      by simp_all
    from Cons.IH [OF this] Nil show ?thesis by simp
  next
    case (Cons r0 others)
    then show ?thesis by simp
  qed
qed

lemma adds_export_pattern: "adds (Suc 0) (export_pattern alnum)"
  unfolding export_pattern_def by (rule adds_rules)+

lemma find_function_export_again:
  assumes "find_function_export alnum content tool_name = Inr (Some (start_pos, func_def))"
  shows "\<exists>q d. find_function_export alnum (insert_jsdoc content start_pos jsdoc) tool_name
           = Inr (Some (q, d))"
proof -
  from assms obtain g r where
    found: "search_at False (export_pattern alnum) None 0 content = Some (start_pos, (g, r))"
    by (auto simp: find_function_export_def re_search_def split: option.splits sum.splits)
  from search_at_Some_D [OF this]
  have le: "start_pos \<le> length content"
    and h: "heads (export_pattern alnum) ([], drop start_pos content) (g, r)"
    by auto
  let ?new = "insert_jsdoc content start_pos jsdoc"
  let ?k = "start_pos + length jsdoc + 1"
  have "drop ?k ?new = drop start_pos content"
    using le by (simp add: insert_jsdoc_def)
  with h have "heads (export_pattern alnum) ([], drop ?k ?new) (g, r)"
    by simp
  moreover have "?k \<le> length ?new"
    using le by (simp add: insert_jsdoc_def)
  ultimately obtain q r' where
    q: "search_at False (export_pattern alnum) None 0 ?new = Some (q, r')"
    using search_at_finds by blast
  obtain g' r'' where r': "r' = (g', r'')" by (cases r')
  with q have "length g' = Suc 0"
    using search_at_groups [OF adds_export_pattern] by blast
  then obtain d where "g' = [d]"
    by (cases g') auto
  with q r' show ?thesis
    by (simp add: find_function_export_def re_search_def item_def)
qed




text \<open>
  C1. The code does not do what the claim says. The tree has two source files, each with
  an exported function at offset 0 (the locator, called as it is declared, returns that
  offset), no comment, and a sidecar that loads. The run ends in the first file with a
  TypeError that nothing catches: the second file is never opened and no tally is
  printed.
\<close>

theorem injector_main_type_error:
  "read_file two_tools_fs (xcodebuild_dir, ascii ''build.ts'') = Inr short_export
   \<and> \<not> jsdoc_exists short_export
   \<and> (\<exists>info. load_md_content two_tools_fs (xcodebuild_dir, ascii ''build.md'') = Inr (Some info))
   \<and> find_function_export ascii_alnum short_export (ascii ''build'') = Inr (Some (0, short_export))
   \<and> injector_main ascii_alnum two_tools_ls two_tools_fs =
       (Some TypeError,
        \<lparr>jfs = two_tools_fs, jprinted = [Adding, CategoryLine (ascii ''xcodebuild'') 2],
         opened = [(xcodebuild_dir, ascii ''build.ts''), (xcodebuild_dir, ascii ''build.md'')],
         total_count = 1, success_count = 0\<rparr>)"
  using two_tools_read(1) short_export_no_jsdoc load_md_content_readable [OF two_tools_read(2)]
    find_short_export injector_main_two_tools
  by simp

end
